theory Spec2Isabelle
  imports Complex_Main "HOL-Library.Log_Nat"
begin

section \<open>Python float arithmetic\<close>

text \<open>
  A Python \<^verbatim>\<open>float\<close> is an IEEE 754 double: a number with 53 significant bits. The true
  division of two \<^verbatim>\<open>int\<close> values and the product of two floats are the exact results
  rounded to the nearest double, a tie going to the double whose last bit is even. The
  value of a double is a rational number; \<open>-0.0\<close> and \<open>0.0\<close> are both the number 0, as
  they are for \<^verbatim>\<open>==\<close>.

  The exponent is not bounded here. A double's exponent is: beyond it the division raises
  \<^verbatim>\<open>OverflowError\<close>, the product is \<^verbatim>\<open>inf\<close>, and tiny results lose bits. No result of an
  operation below leaves the range of the normal doubles when the \<^verbatim>\<open>int\<close> values it
  starts from are below \<open>2 ^ 1000\<close> in magnitude, and there these functions are the
  operations of Python.
\<close>

text \<open>The nearest integer, a tie going to the even one.\<close>

definition round_half_even :: "rat \<Rightarrow> int" where
  "round_half_even x =
     (let f = \<lfloor>x\<rfloor>; d = x - of_int f
      in if d < 1 / 2 then f else if 1 / 2 < d then f + 1 else if even f then f else f + 1)"

text \<open>
  The exponent \<open>e\<close> of a number that is not zero, \<open>2 ^ e \<le> \<bar>x\<bar> < 2 ^ (e + 1)\<close>, from the
  bit lengths of its numerator and denominator.
\<close>

definition float_exponent :: "rat \<Rightarrow> int" where
  "float_exponent x =
     (let (p, q) = quotient_of x; d = bitlen \<bar>p\<bar> - bitlen q
      in if 2 powi d \<le> \<bar>x\<bar> then d else d - 1)"

text \<open>The nearest number with 53 significant bits.\<close>

definition round_double :: "rat \<Rightarrow> rat" where
  "round_double x =
     (if x = 0 then 0
      else (let e = float_exponent x
            in of_int (round_half_even (x * 2 powi (52 - e))) * 2 powi (e - 52)))"

text \<open>
  \<^verbatim>\<open>a / b\<close> on two \<^verbatim>\<open>int\<close> values, for a divisor that is not zero (the one call below
  is guarded), and \<^verbatim>\<open>x * y\<close> on two floats.
\<close>

definition int_truediv :: "int \<Rightarrow> int \<Rightarrow> rat" where
  "int_truediv a b = round_double (of_int a / of_int b)"

definition float_mul :: "rat \<Rightarrow> rat \<Rightarrow> rat" where
  "float_mul x y = round_double (x * y)"

section \<open>Data model\<close>

text \<open>
  The debate and citation pipeline of the repository, embedded function by function.
  Python \<^verbatim>\<open>float\<close> values are read as real numbers (the scores are sums of a few
  constants and are compared, never tested for equality; the verification rate of a
  report is the exception and is rounded as the source rounds it), Python \<^verbatim>\<open>int\<close>
  values as \<^typ>\<open>int\<close>, and positions in a text (what \<^verbatim>\<open>match.start()\<close> and \<^verbatim>\<open>match.end()\<close>
  return, never negative) as \<^typ>\<open>nat\<close>. A text is a list of characters.
  Where two classes of the source share a field name, the later record carries a short
  prefix on that field.
\<close>

subsection \<open>citation\_moat/extractor.py\<close>

datatype CitationType = AUTHOR_YEAR | NUMBERED | DOI | URL | UNKNOWN

record ExtractedCitation =
  raw_text :: string
  citation_type :: CitationType
  position :: "nat \<times> nat"
  authors :: "string option"
  year :: "string option"
  doi :: "string option"
  url :: "string option"
  number :: "int option"

subsection \<open>citation\_moat/web\_validator.py and doi\_resolver.py\<close>

datatype ValidationStatus = VERIFIED | PARTIAL_MATCH | NOT_FOUND | ERROR | PENDING

record ValidationResult =
  status :: ValidationStatus
  confidence :: real
  source :: "string option"
  matched_title :: "string option"
  matched_url :: "string option"
  matched_doi :: "string option"
  error_message :: "string option"
  search_queries_used :: "string list"

text \<open>The four keys that \<^verbatim>\<open>_verify_single_citation\<close> copies out of a resolved DOI.\<close>

record DOIMetadata =
  md_title :: "string option"
  md_authors :: "string list"
  md_year :: "int option"
  md_resolved :: bool

subsection \<open>citation\_moat/moat\_engine.py\<close>

datatype MoatDecision = KEEP | MODIFY | DELETE | FLAG

record CitationVerification =
  original_citation :: ExtractedCitation
  decision :: MoatDecision
  agent_a_verified :: bool
  agent_b_verified :: bool
  web_validation :: "ValidationResult option"
  doi_metadata :: "DOIMetadata option"
  alternative_source :: "string option"
  reason :: string
  cv_confidence :: real

record MoatReport =
  total_citations :: int
  verified_count :: int
  modified_count :: int
  deleted_count :: int
  flagged_count :: int
  verifications :: "CitationVerification list"
  clean_text :: string

text \<open>
  \<^verbatim>\<open>MoatReport.verification_rate\<close>: the guard is on \<^verbatim>\<open>total_citations == 0\<close>, so the
  division below it never has a zero divisor. The two operations of
  \<^verbatim>\<open>(self.verified_count / self.total_citations) * 100\<close> are float operations, each
  rounded: the quotient of the two counts, then its product with \<open>100.0\<close>. The result is
  the value of that double.
\<close>

definition verification_rate :: "MoatReport \<Rightarrow> real" where
  "verification_rate r =
     (if total_citations r = 0 then 100
      else real_of_rat (float_mul (int_truediv (verified_count r) (total_citations r)) 100))"

text \<open>
  \<^verbatim>\<open>CitationMoatEngine._make_decision\<close>. The engine's \<^verbatim>\<open>strict_mode\<close> is the first
  argument. Every verification that reaches it has a web result (it is assigned in
  \<^verbatim>\<open>_verify_single_citation\<close> just before); reading \<^verbatim>\<open>.status\<close> of \<^verbatim>\<open>None\<close> is an
  \<^verbatim>\<open>AttributeError\<close>, here the value \<open>None\<close>.
\<close>

definition make_decision :: "bool \<Rightarrow> CitationVerification \<Rightarrow> (MoatDecision \<times> string) option" where
  "make_decision strict_mode verification =
     (case web_validation verification of
        None \<Rightarrow> None
      | Some web \<Rightarrow>
          (let web_status = status web;
               agent_a = agent_a_verified verification;
               agent_b = agent_b_verified verification
           in Some
             (if agent_a \<and> agent_b \<and> web_status = VERIFIED
              then (KEEP, ''Both agents verified, web source found'')
              else if web_status = PARTIAL_MATCH
              then (if agent_a \<or> agent_b
                    then (MODIFY, ''Partial match found, needs correction'')
                    else (FLAG, ''Partial match, needs review''))
              else if web_status = VERIFIED \<and> agent_a \<and> \<not> agent_b
              then (FLAG, ''Agent A verified, Agent B disagrees'')
              else if web_status = VERIFIED \<and> agent_b \<and> \<not> agent_a
              then (FLAG, ''Agent B verified, Agent A disagrees'')
              else if web_status = VERIFIED \<and> \<not> agent_a \<and> \<not> agent_b
              then (FLAG, ''Web verified but both agents uncertain'')
              else if strict_mode
              then (DELETE, ''Cannot verify source, strict mode enabled'')
              else (FLAG, ''Cannot verify source, flagged for review''))))"

text \<open>\<^verbatim>\<open>CitationMoatEngine._calculate_confidence\<close>.\<close>

definition calculate_confidence :: "CitationVerification \<Rightarrow> real" where
  "calculate_confidence verification =
     (case web_validation verification of
        None \<Rightarrow> 0
      | Some web \<Rightarrow>
          (if status web = VERIFIED then 40
           else if status web = PARTIAL_MATCH then 20 else 0))
     + (if agent_a_verified verification then 30 else 0)
     + (if agent_b_verified verification then 30 else 0)"

subsection \<open>engine/scoring.py, engine/voting.py\<close>

record RoundScore =
  accuracy :: real
  evidence :: real
  logic :: real
  methodology :: real
  clarity :: real

datatype VoteStatus = PASS | FAIL | ABSTAIN

text \<open>
  The feedback texts of the voting engine print scores with Python's float formatting;
  they are presentation and are left out of the two records below.
\<close>

record CriterionVote =
  criterion :: string
  score :: real
  vote_status :: VoteStatus

record VotingResult =
  passed :: bool
  weighted_average :: real
  criterion_scores :: "(string \<times> real) list"
  criterion_votes :: "CriterionVote list"
  voting_rounds :: int

subsection \<open>engine/adaptive\_debate.py\<close>

datatype DebateStatus =
  NOT_STARTED | IN_PROGRESS | CONVERGED | MAX_ROUNDS_REACHED | CONSENSUS_REACHED | DEADLOCK

record DebateRound =
  round_number :: int
  proponent_response :: string
  reviewer_response :: string
  proponent_claims :: "string list"
  reviewer_critiques :: "string list"
  round_score :: "RoundScore option"
  citation_report :: "MoatReport option"

record DebateResult =
  debate_status :: DebateStatus
  total_rounds :: int
  final_position :: string
  final_score :: real
  voting_result :: "VotingResult option"
  rounds :: "DebateRound list"
  consensus_points :: "string list"
  disputed_points :: "string list"
  re_evaluations :: int

subsection \<open>output/consensus.py\<close>

text \<open>
  \<^verbatim>\<open>ConsensusGenerator._determine_verdict\<close>. The voting result is optional in the source;
  \<^verbatim>\<open>voting_result and not voting_result.passed\<close> is false when it is \<^verbatim>\<open>None\<close>.
\<close>

definition determine_verdict :: "DebateResult \<Rightarrow> VotingResult option \<Rightarrow> string" where
  "determine_verdict debate_result voting =
     (if (case voting of None \<Rightarrow> False | Some vr \<Rightarrow> \<not> passed vr) then ''REJECTED''
      else if debate_status debate_result = CONSENSUS_REACHED
      then (if final_score debate_result \<ge> 85 then ''VALIDATED'' else ''PARTIALLY VALIDATED'')
      else if debate_status debate_result = CONVERGED
      then (if final_score debate_result \<ge> 75 then ''PARTIALLY VALIDATED'' else ''NEEDS REVISION'')
      else if debate_status debate_result = DEADLOCK then ''INCONCLUSIVE''
      else ''PARTIALLY VALIDATED'')"

section \<open>Python string operations\<close>

text \<open>
  The operations of \<^verbatim>\<open>str\<close> that the scoring heuristics use. Characters are bytes, so
  the model covers ASCII text: \<^verbatim>\<open>lower\<close> maps the letters A to Z and leaves every other
  character as it is, and whitespace is what \<^verbatim>\<open>str.isspace\<close> accepts below 128.
\<close>

definition lower_char :: "char \<Rightarrow> char" where
  "lower_char c =
     (case map_of (zip ''ABCDEFGHIJKLMNOPQRSTUVWXYZ'' ''abcdefghijklmnopqrstuvwxyz'') c of
        Some l \<Rightarrow> l
      | None \<Rightarrow> c)"

definition lower :: "string \<Rightarrow> string" where
  "lower s = map lower_char s"

text \<open>\<^verbatim>\<open>text.startswith(p)\<close>, with the prefix first.\<close>

fun starts_with :: "string \<Rightarrow> string \<Rightarrow> bool" where
  "starts_with [] s = True"
| "starts_with (p # ps) [] = False"
| "starts_with (p # ps) (c # cs) = (p = c \<and> starts_with ps cs)"

text \<open>\<^verbatim>\<open>needle in text\<close>, with the needle first.\<close>

fun str_in :: "string \<Rightarrow> string \<Rightarrow> bool" where
  "str_in n [] = (n = [])"
| "str_in n (c # cs) = (starts_with n (c # cs) \<or> str_in n cs)"

text \<open>
  \<^verbatim>\<open>text.count(needle)\<close>: occurrences that do not overlap, from the left; the empty
  needle is found between every two characters and at both ends.
\<close>

fun str_count_from :: "string \<Rightarrow> string \<Rightarrow> nat" where
  "str_count_from n [] = 0"
| "str_count_from n (c # cs) =
     (if starts_with n (c # cs) then 1 + str_count_from n (drop (length n - 1) cs)
      else str_count_from n cs)"

definition str_count :: "string \<Rightarrow> string \<Rightarrow> nat" where
  "str_count n s = (if n = [] then length s + 1 else str_count_from n s)"

definition whitespace :: string where
  "whitespace = [CHR 0x09, CHR 0x0A, CHR 0x0B, CHR 0x0C, CHR 0x0D, CHR 0x1C, CHR 0x1D, CHR 0x1E,
     CHR 0x1F, CHR 0x20]"

definition is_space :: "char \<Rightarrow> bool" where
  "is_space c = List.member whitespace c"

text \<open>
  \<^verbatim>\<open>text.split()\<close>: the maximal runs of characters that are not whitespace. The first
  argument is the run read so far, last character first.
\<close>

fun split_from :: "string \<Rightarrow> string \<Rightarrow> string list" where
  "split_from cur [] = (if cur = [] then [] else [rev cur])"
| "split_from cur (c # cs) =
     (if is_space c then (if cur = [] then split_from [] cs else rev cur # split_from [] cs)
      else split_from (c # cur) cs)"

definition split :: "string \<Rightarrow> string list" where
  "split s = split_from [] s"

text \<open>\<^verbatim>\<open>sum(1 for m in markers if m in text)\<close>.\<close>

definition marker_count :: "string list \<Rightarrow> string \<Rightarrow> nat" where
  "marker_count markers text = length (filter (\<lambda>m. str_in m text) markers)"

section \<open>Regular expressions\<close>

text \<open>
  The extractor finds citations with Python's \<^verbatim>\<open>re\<close> module. Its patterns use
  literals, character classes, sequence, alternation, greedy repetition (\<^verbatim>\<open>?\<close>,
  \<^verbatim>\<open>*\<close>, \<^verbatim>\<open>+\<close>, \<^verbatim>\<open>{m,n}\<close>), capture groups and the word boundary
  \<^verbatim>\<open>\b\<close>; these are the constructors of \<open>rx\<close>. \<open>Rep lo hi r\<close> repeats \<open>r\<close> at
  least \<open>lo\<close> and at most \<open>hi\<close> times (without bound for \<open>None\<close>).
\<close>

datatype rx =
    Eps
  | Chr char
  | Cls "char list"
  | NCls "char list"
  | Seq rx rx
  | Alt rx rx
  | Rep nat "nat option" rx
  | Grp nat rx
  | WordB

text \<open>
  The state of a match: the character before the current position (for \<^verbatim>\<open>\b\<close>),
  the text from the current position on, and the groups closed so far, each with the text
  from its start and the text from its end, the latest first.
\<close>

type_synonym mstate = "char option \<times> string \<times> (nat \<times> string \<times> string) list"

definition word_chars :: string where
  "word_chars = ''abcdefghijklmnopqrstuvwxyzABCDEFGHIJKLMNOPQRSTUVWXYZ0123456789_''"

definition is_word :: "char option \<Rightarrow> bool" where
  "is_word c = (case c of None \<Rightarrow> False | Some x \<Rightarrow> List.member word_chars x)"

text \<open>
  The backtracking matcher, with the rest of the pattern as the continuation \<open>k\<close>: an
  alternative tries its left branch first, a repetition tries one more iteration before it
  tries to stop, and whatever fails falls back to the latest choice still open, which is
  the order in which \<^verbatim>\<open>re\<close> searches. As in \<^verbatim>\<open>re\<close>, an iteration of a repetition
  that consumes nothing is not repeated.
\<close>

function (sequential) rmatch :: "rx \<Rightarrow> mstate \<Rightarrow> (mstate \<Rightarrow> mstate option) \<Rightarrow> mstate option" where
  "rmatch Eps s k = k s"
| "rmatch (Chr c) (p, rest, g) k =
     (case rest of [] \<Rightarrow> None | x # xs \<Rightarrow> if x = c then k (Some x, xs, g) else None)"
| "rmatch (Cls cs) (p, rest, g) k =
     (case rest of [] \<Rightarrow> None | x # xs \<Rightarrow> if List.member cs x then k (Some x, xs, g) else None)"
| "rmatch (NCls cs) (p, rest, g) k =
     (case rest of [] \<Rightarrow> None | x # xs \<Rightarrow> if List.member cs x then None else k (Some x, xs, g))"
| "rmatch (Seq a b) s k = rmatch a s (\<lambda>s'. rmatch b s' k)"
| "rmatch (Alt a b) s k = (case rmatch a s k of Some r \<Rightarrow> Some r | None \<Rightarrow> rmatch b s k)"
| "rmatch (Rep lo hi r) (p, rest, g) k =
     (if hi = Some 0 then (if lo = 0 then k (p, rest, g) else None)
      else case rmatch r (p, rest, g)
                  (\<lambda>(p', rest', g').
                     if length rest' < length rest
                     then rmatch (Rep (lo - 1) (map_option (\<lambda>h. h - 1) hi) r) (p', rest', g') k
                     else None) of
             Some x \<Rightarrow> Some x
           | None \<Rightarrow> if lo = 0 then k (p, rest, g) else None)"
| "rmatch (Grp n r) (p, rest, g) k =
     rmatch r (p, rest, g) (\<lambda>(p', rest', g'). k (p', rest', (n, rest, rest') # g'))"
| "rmatch WordB (p, rest, g) k =
     (if is_word p \<noteq> is_word (case rest of [] \<Rightarrow> None | x # xs \<Rightarrow> Some x) then k (p, rest, g) else None)"
  by pat_completeness auto
termination
  by (relation "measures [\<lambda>(r, s, k). size r, \<lambda>(r, (p, rest, g), k). length rest]") auto

subsection \<open>Match objects and finditer\<close>

text \<open>
  What the extractor reads of a match object: \<^verbatim>\<open>start()\<close>, \<^verbatim>\<open>end()\<close>,
  \<^verbatim>\<open>group(0)\<close> and the numbered groups that took part in the match.
\<close>

record rmatch_obj =
  m_start :: nat
  m_end :: nat
  m_group0 :: string
  m_groups :: "(nat \<times> string) list"

text \<open>
  \<^verbatim>\<open>pattern.match\<close> at one position: \<open>start\<close> is the position, \<open>p\<close> the character
  before it and \<open>rest\<close> the text from it on. The result carries the state after the match.
\<close>

definition match_at :: "rx \<Rightarrow> nat \<Rightarrow> char option \<Rightarrow> string \<Rightarrow> (rmatch_obj \<times> char option \<times> string) option" where
  "match_at r start p rest =
     (case rmatch r (p, rest, []) Some of
        None \<Rightarrow> None
      | Some (p', rest', g) \<Rightarrow>
          Some (\<lparr>m_start = start, m_end = start + (length rest - length rest'),
                  m_group0 = take (length rest - length rest') rest,
                  m_groups = map (\<lambda>(n, a, b). (n, take (length a - length b) a)) g\<rparr>,
                p', rest'))"

text \<open>
  \<^verbatim>\<open>pattern.finditer(text)\<close>: the leftmost match, then the search goes on where the
  match ended (one character further after an empty match, and after a position with no
  match).
\<close>

function finditer_from :: "rx \<Rightarrow> nat \<Rightarrow> char option \<Rightarrow> string \<Rightarrow> rmatch_obj list" where
  "finditer_from r start p rest =
     (case match_at r start p rest of
        Some (m, p', rest') \<Rightarrow>
          if length rest' < length rest
          then m # finditer_from r (m_end m) p' rest'
          else (case rest of [] \<Rightarrow> [m] | x # xs \<Rightarrow> m # finditer_from r (start + 1) (Some x) xs)
      | None \<Rightarrow>
          (case rest of [] \<Rightarrow> [] | x # xs \<Rightarrow> finditer_from r (start + 1) (Some x) xs))"
  by pat_completeness auto
termination
  by (relation "measure (\<lambda>(r, start, p, rest). length rest)") auto

declare finditer_from.simps [simp del]

definition finditer :: "rx \<Rightarrow> string \<Rightarrow> rmatch_obj list" where
  "finditer r text = finditer_from r 0 None text"

subsection \<open>The patterns of the extractor\<close>

fun seqs :: "rx list \<Rightarrow> rx" where
  "seqs [] = Eps"
| "seqs [r] = r"
| "seqs (r # rs) = Seq r (seqs rs)"

definition rx_lit :: "string \<Rightarrow> rx" where "rx_lit s = seqs (map Chr s)"
definition rx_opt :: "rx \<Rightarrow> rx" where "rx_opt r = Rep 0 (Some 1) r"
definition rx_star :: "rx \<Rightarrow> rx" where "rx_star r = Rep 0 None r"
definition rx_plus :: "rx \<Rightarrow> rx" where "rx_plus r = Rep 1 None r"

definition lowers :: string where "lowers = ''abcdefghijklmnopqrstuvwxyz''"
definition uppers :: string where "uppers = ''ABCDEFGHIJKLMNOPQRSTUVWXYZ''"
definition digits :: string where "digits = ''0123456789''"

text \<open>
  \<^verbatim>\<open>\s\<close> and \<^verbatim>\<open>\d\<close>, on ASCII text.
\<close>

definition rx_s :: rx where "rx_s = Cls whitespace"
definition rx_d :: rx where "rx_d = Cls digits"

text \<open>
  The author part shared by the three author-year patterns,
  \<^verbatim>\<open>[A-Z][a-zA-Z\-]+(?:\s+(?:et\s+al\.?|and\s+[A-Z][a-zA-Z\-]+))?\<close>, the year part
  \<^verbatim>\<open>\d{4}[a-z]?\<close>, and the class \<^verbatim>\<open>[^\s\]]\<close> of the DOI patterns.
\<close>

definition rx_author :: rx where
  "rx_author = seqs [Cls uppers, rx_plus (Cls (lowers @ uppers @ ''-'')),
     rx_opt (seqs [rx_plus rx_s,
       Alt (seqs [rx_lit ''et'', rx_plus rx_s, rx_lit ''al'', rx_opt (Chr CHR ''.'')])
           (seqs [rx_lit ''and'', rx_plus rx_s, Cls uppers, rx_plus (Cls (lowers @ uppers @ ''-''))])])]"

definition rx_year :: rx where
  "rx_year = seqs [Rep 4 (Some 4) rx_d, rx_opt (Cls lowers)]"

definition not_space_bracket :: rx where
  "not_space_bracket = NCls (whitespace @ '']'')"

text \<open>
  \<^verbatim>\<open>CitationExtractor.PATTERNS\<close>, in the order of the dictionary: three author-year
  patterns, the numbered pattern, two DOI patterns and the URL pattern.
\<close>

definition PATTERNS :: "(CitationType \<times> rx list) list" where
  "PATTERNS =
    [(AUTHOR_YEAR,
       [seqs [Chr CHR ''('', Grp 1 rx_author, rx_opt (Chr CHR '',''), rx_star rx_s, Grp 2 rx_year, Chr CHR '')''],
        seqs [Grp 1 rx_author, rx_star rx_s, Chr CHR ''('', Grp 2 rx_year, Chr CHR '')''],
        seqs [Chr CHR ''['', Grp 1 rx_author, rx_opt (Chr CHR '',''), rx_star rx_s, Grp 2 rx_year, Chr CHR '']'']]),
     (NUMBERED,
       [seqs [Chr CHR ''['',
              Grp 1 (seqs [rx_plus rx_d, rx_star (seqs [rx_star rx_s, Cls ''-,'', rx_star rx_s, rx_plus rx_d])]),
              Chr CHR '']'']]),
     (DOI,
       [seqs [Alt (rx_lit ''doi:'') (Alt (rx_lit ''DOI:'') (seqs [rx_lit ''http'', rx_opt (Chr CHR ''s''), rx_lit ''://doi.org/''])),
              Grp 1 (seqs [rx_plus rx_d, Chr CHR ''.'', rx_plus rx_d, Chr CHR ''/'', rx_plus not_space_bracket])],
        seqs [rx_lit ''10.'', Rep 4 None rx_d, Chr CHR ''/'', rx_plus not_space_bracket]]),
     (URL,
       [seqs [rx_lit ''http'', rx_opt (Chr CHR ''s''), rx_lit ''://'', rx_opt (rx_lit ''www.''),
              Rep 1 (Some 256) (Cls (''-'' @ lowers @ uppers @ digits @ ''@:%._+~#='')),
              Chr CHR ''.'',
              Rep 1 (Some 6) (Cls (lowers @ uppers @ digits @ ''()'')),
              WordB,
              rx_star (Cls (''-'' @ lowers @ uppers @ digits @ ''()@:%_+.~#?&/=''))]])]"

subsection \<open>citation\_moat/extractor.py\<close>

text \<open>\<^verbatim>\<open>match.group(n)\<close>; \<open>None\<close> for a group that took no part in the match.\<close>

definition group :: "rmatch_obj \<Rightarrow> nat \<Rightarrow> string option" where
  "group m n = (if n = 0 then Some (m_group0 m) else map_of (m_groups m) n)"

text \<open>\<^verbatim>\<open>s.strip()\<close> and \<^verbatim>\<open>s.rstrip('.')\<close>.\<close>

definition strip :: "string \<Rightarrow> string" where
  "strip s = rev (dropWhile (\<lambda>c. List.member whitespace c)
               (rev (dropWhile (\<lambda>c. List.member whitespace c) s)))"

definition rstrip_dot :: "string \<Rightarrow> string" where
  "rstrip_dot s = rev (dropWhile (\<lambda>c. c = CHR ''.'') (rev s))"

text \<open>
  \<^verbatim>\<open>int(s)\<close> on the texts the numbered pattern can hand to it, digits with whitespace
  around them: the value, or \<open>None\<close> for the \<^verbatim>\<open>ValueError\<close> that the extractor catches.
\<close>

definition digit_val :: "char \<Rightarrow> int" where
  "digit_val c = (case map_of (zip digits [0, 1, 2, 3, 4, 5, 6, 7, 8, 9]) c of Some v \<Rightarrow> v | None \<Rightarrow> 0)"

definition py_int :: "string \<Rightarrow> int option" where
  "py_int s =
     (let t = strip s
      in if t \<noteq> [] \<and> list_all (\<lambda>c. List.member digits c) t
         then Some (foldl (\<lambda>acc c. acc * 10 + digit_val c) 0 t)
         else None)"

text \<open>
  \<^verbatim>\<open>CitationExtractor._create_citation\<close>. \<^verbatim>\<open>s.split(',')[0]\<close> is the text before
  the first comma. Both DOI patterns are handled by \<^verbatim>\<open>match.lastindex\<close>: the first has
  a group, the second has none and yields the whole match.
\<close>

definition create_citation :: "rmatch_obj \<Rightarrow> CitationType \<Rightarrow> ExtractedCitation" where
  "create_citation m ctype =
     (let citation = \<lparr>raw_text = m_group0 m, citation_type = ctype,
            position = (m_start m, m_end m), authors = None, year = None, doi = None,
            url = None, number = None\<rparr>
      in case ctype of
           AUTHOR_YEAR \<Rightarrow> citation\<lparr>authors := group m 1, year := group m 2\<rparr>
         | NUMBERED \<Rightarrow>
             (case group m 1 of
                None \<Rightarrow> citation
              | Some g \<Rightarrow>
                  citation\<lparr>number :=
                    py_int (takeWhile (\<lambda>c. c \<noteq> CHR ''-'') (takeWhile (\<lambda>c. c \<noteq> CHR '','') g))\<rparr>)
         | DOI \<Rightarrow>
             (let doi_text = (case group m 1 of Some g \<Rightarrow> g | None \<Rightarrow> m_group0 m)
              in citation\<lparr>doi := Some (rstrip_dot (strip doi_text))\<rparr>)
         | URL \<Rightarrow> citation\<lparr>url := Some (m_group0 m)\<rparr>
         | UNKNOWN \<Rightarrow> citation)"

text \<open>\<^verbatim>\<open>CitationExtractor._priority\<close>.\<close>

definition priority :: "ExtractedCitation \<Rightarrow> int" where
  "priority c = (case citation_type c of DOI \<Rightarrow> 4 | AUTHOR_YEAR \<Rightarrow> 3 | NUMBERED \<Rightarrow> 2 | URL \<Rightarrow> 1
                 | UNKNOWN \<Rightarrow> 0)"

text \<open>
  \<^verbatim>\<open>CitationExtractor._deduplicate\<close>: the loop over the citations sorted by start, and
  the function itself. \<open>result\<close> starts with one citation and never gets empty, so
  \<^verbatim>\<open>result[-1]\<close> is always there. \<^verbatim>\<open>sorted\<close> is stable, as \<open>sort_key\<close> is.
\<close>

fun dedup_loop :: "ExtractedCitation list \<Rightarrow> ExtractedCitation list \<Rightarrow> ExtractedCitation list" where
  "dedup_loop result [] = result"
| "dedup_loop result (citation # cs) =
     (let lst = last result
      in if fst (position citation) \<ge> snd (position lst) then dedup_loop (result @ [citation]) cs
         else if snd (position citation) > snd (position lst)
         then (if priority citation > priority lst then dedup_loop (butlast result @ [citation]) cs
               else dedup_loop result cs)
         else dedup_loop result cs)"

definition deduplicate :: "ExtractedCitation list \<Rightarrow> ExtractedCitation list" where
  "deduplicate citations =
     (case sort_key (\<lambda>c. fst (position c)) citations of
        [] \<Rightarrow> []
      | c # cs \<Rightarrow> dedup_loop [c] cs)"

text \<open>
  \<^verbatim>\<open>CitationExtractor.extract_all\<close>: first the three nested loops that collect the
  matches of every pattern, type by type, then the removal of overlaps and the final sort.
\<close>

definition scan_all :: "string \<Rightarrow> ExtractedCitation list" where
  "scan_all text =
     concat (map (\<lambda>(ctype, patterns).
        concat (map (\<lambda>pattern. map (\<lambda>m. create_citation m ctype) (finditer pattern text)) patterns))
        PATTERNS)"

definition extract_all :: "string \<Rightarrow> ExtractedCitation list" where
  "extract_all text = sort_key (\<lambda>c. fst (position c)) (deduplicate (scan_all text))"

section \<open>citation\_moat/moat\_engine.py\<close>

text \<open>
  The agents, the web validator and the DOI resolver are outside the core: language models
  and network services. They are modelled as functions on a state of the outside world of
  any type \<open>'w\<close>, so that an answer may depend on everything that happened before.
  A call of an agent returns the \<^verbatim>\<open>content\<close> of its response or raises an exception
  (a subclass of \<^verbatim>\<open>Exception\<close>, which is what the handlers of the source catch).
  \<^verbatim>\<open>WebValidator.validate\<close> and \<^verbatim>\<open>DOIResolver.resolve\<close> catch every exception of their
  network calls themselves and always return a result.
\<close>

datatype py_exception = PyException string

type_synonym 'w reply = "'w \<Rightarrow> (py_exception + string) \<times> 'w"

text \<open>
  The attributes of \<^verbatim>\<open>CitationMoatEngine\<close>. Of an agent the moat only calls
  \<^verbatim>\<open>verify_citation(claim, citation)\<close>; an agent that is not configured is \<open>None\<close>.
\<close>

record 'w CitationMoatEngine =
  proponent :: "(string \<Rightarrow> string \<Rightarrow> 'w reply) option"
  reviewer :: "(string \<Rightarrow> string \<Rightarrow> 'w reply) option"
  strict_mode :: bool
  web_validator :: "string \<Rightarrow> string option \<Rightarrow> string option \<Rightarrow> 'w \<Rightarrow> ValidationResult \<times> 'w"
  doi_resolver :: "string \<Rightarrow> 'w \<Rightarrow> DOIMetadata \<times> 'w"

text \<open>
  \<^verbatim>\<open>ExtractedCitation.to_search_query\<close>. An optional string is true when it is there and
  not empty.
\<close>

definition truthy :: "string option \<Rightarrow> bool" where
  "truthy s = (case s of None \<Rightarrow> False | Some t \<Rightarrow> t \<noteq> [])"

definition text_of :: "string option \<Rightarrow> string" where
  "text_of s = (case s of None \<Rightarrow> [] | Some t \<Rightarrow> t)"

definition to_search_query :: "ExtractedCitation \<Rightarrow> string" where
  "to_search_query c =
     (if truthy (doi c) then ''DOI:'' @ text_of (doi c)
      else if truthy (authors c) \<and> truthy (year c)
      then text_of (authors c) @ '' '' @ text_of (year c)
      else if truthy (url c) then text_of (url c)
      else raw_text c)"

text \<open>
  \<^verbatim>\<open>CitationMoatEngine._agent_verify\<close>: the \<^verbatim>\<open>try\<close> block and its handler, which
  falls back to the web result.
\<close>

definition agent_verify ::
  "(string \<Rightarrow> string \<Rightarrow> 'w reply) \<Rightarrow> ExtractedCitation \<Rightarrow> ValidationResult \<Rightarrow> 'w \<Rightarrow> bool \<times> 'w" where
  "agent_verify agent citation web_result w =
     (case agent (raw_text citation) (to_search_query citation) w of
        (Inr response, w') \<Rightarrow>
          (let content = lower response
           in (str_in ''verified'' content \<or> str_in ''valid'' content \<or> str_in ''confirmed'' content,
               w'))
      | (Inl e, w') \<Rightarrow> (status web_result = VERIFIED, w'))"

text \<open>
  \<^verbatim>\<open>CitationMoatEngine._verify_single_citation\<close>. The verification handed to
  \<open>make_decision\<close> has its web result set, so the branch for \<open>None\<close> is never taken.
\<close>

definition verify_single_citation ::
  "'w CitationMoatEngine \<Rightarrow> ExtractedCitation \<Rightarrow> 'w \<Rightarrow> CitationVerification \<times> 'w" where
  "verify_single_citation eng citation w =
     (let v0 = \<lparr>original_citation = citation, decision = DELETE, agent_a_verified = False,
                agent_b_verified = False, web_validation = None, doi_metadata = None,
                alternative_source = None, reason = [], cv_confidence = 0.0\<rparr>;
          (web_result, w1) =
            web_validator eng (to_search_query citation) (doi citation) (url citation) w;
          v1 = v0\<lparr>web_validation := Some web_result\<rparr>;
          (v2, w2) =
            (if truthy (doi citation)
             then (let (md, w') = doi_resolver eng (text_of (doi citation)) w1
                   in (v1\<lparr>doi_metadata := Some md\<rparr>, w'))
             else (v1, w1));
          (agent_a_result, w3) =
            (case proponent eng of
               Some agent \<Rightarrow> agent_verify agent citation web_result w2
             | None \<Rightarrow> (status web_result = VERIFIED, w2));
          v3 = v2\<lparr>agent_a_verified := agent_a_result\<rparr>;
          (agent_b_result, w4) =
            (case reviewer eng of
               Some agent \<Rightarrow> agent_verify agent citation web_result w3
             | None \<Rightarrow> (status web_result = VERIFIED, w3));
          v4 = v3\<lparr>agent_b_verified := agent_b_result\<rparr>;
          v5 = (case make_decision (strict_mode eng) v4 of
                  Some (d, why) \<Rightarrow> v4\<lparr>decision := d, reason := why\<rparr>
                | None \<Rightarrow> v4)
      in (v5\<lparr>cv_confidence := calculate_confidence v5\<rparr>, w4))"

text \<open>\<^verbatim>\<open>CitationMoatEngine._verify_citations\<close>: one citation after the other.\<close>

fun verify_citations ::
  "'w CitationMoatEngine \<Rightarrow> ExtractedCitation list \<Rightarrow> 'w \<Rightarrow> CitationVerification list \<times> 'w" where
  "verify_citations eng [] w = ([], w)"
| "verify_citations eng (citation # cs) w =
     (let (verification, w1) = verify_single_citation eng citation w;
          (vs, w2) = verify_citations eng cs w1
      in (verification # vs, w2))"

text \<open>
  \<^verbatim>\<open>CitationMoatEngine._generate_clean_text\<close>. \<open>slice s a b\<close> is \<^verbatim>\<open>s[a:b]\<close>, \<open>take a s\<close>
  is \<^verbatim>\<open>s[:a]\<close> and \<open>drop b s\<close> is \<^verbatim>\<open>s[b:]\<close> for indices that are not negative.
  \<^verbatim>\<open>sorted(..., reverse=True)\<close> keeps the order of elements with equal keys.
\<close>

definition slice :: "string \<Rightarrow> nat \<Rightarrow> nat \<Rightarrow> string" where
  "slice s a b = drop a (take b s)"

definition sorted_reverse :: "('a \<Rightarrow> nat) \<Rightarrow> 'a list \<Rightarrow> 'a list" where
  "sorted_reverse f xs = rev (sort_key f (rev xs))"

definition clean_step :: "string \<Rightarrow> CitationVerification \<Rightarrow> string" where
  "clean_step clean v =
     (let (start, end') = position (original_citation v)
      in if decision v = DELETE
         then take start clean @ ''[CITATION REMOVED]'' @ drop end' clean
         else if decision v = MODIFY \<and> truthy (alternative_source v)
         then take start clean @ text_of (alternative_source v) @ drop end' clean
         else if decision v = FLAG
         then take start clean @ ''[NEEDS REVIEW: '' @ slice clean start end' @ '']''
              @ drop end' clean
         else clean)"

definition generate_clean_text :: "string \<Rightarrow> CitationVerification list \<Rightarrow> string" where
  "generate_clean_text original_text vs =
     foldl clean_step original_text
       (sorted_reverse (\<lambda>x. fst (position (original_citation x))) vs)"

text \<open>The counting loop of \<^verbatim>\<open>verify_text\<close> (its step 3).\<close>

definition count_step :: "MoatReport \<Rightarrow> CitationVerification \<Rightarrow> MoatReport" where
  "count_step report v =
     (if decision v = KEEP then report\<lparr>verified_count := verified_count report + 1\<rparr>
      else if decision v = MODIFY then report\<lparr>modified_count := modified_count report + 1\<rparr>
      else if decision v = DELETE then report\<lparr>deleted_count := deleted_count report + 1\<rparr>
      else if decision v = FLAG then report\<lparr>flagged_count := flagged_count report + 1\<rparr>
      else report)"

text \<open>\<^verbatim>\<open>CitationMoatEngine.verify_text\<close>.\<close>

definition verify_text :: "'w CitationMoatEngine \<Rightarrow> string \<Rightarrow> 'w \<Rightarrow> MoatReport \<times> 'w" where
  "verify_text eng text w =
     (let citations = extract_all text;
          report = \<lparr>total_citations = int (length citations), verified_count = 0,
                     modified_count = 0, deleted_count = 0, flagged_count = 0,
                     verifications = [], clean_text = []\<rparr>
      in if citations = [] then (report\<lparr>clean_text := text\<rparr>, w)
         else (let (vs, w1) = verify_citations eng citations w;
                   report1 = report\<lparr>verifications := vs\<rparr>;
                   report2 = foldl count_step report1 vs
               in (report2\<lparr>clean_text := generate_clean_text text vs\<rparr>, w1)))"

section \<open>engine/scoring.py\<close>

text \<open>\<^verbatim>\<open>RoundScore.total_score\<close>, with the weights of \<^verbatim>\<open>RoundScore.WEIGHTS\<close>.\<close>

definition total_score :: "RoundScore \<Rightarrow> real" where
  "total_score s =
     (accuracy s * 0.25 + evidence s * 0.25 + logic s * 0.20 + methodology s * 0.15
      + clarity s * 0.15) * 100"

text \<open>
  \<^verbatim>\<open>ScoringSystem._score_accuracy\<close>. A \<^verbatim>\<open>MoatReport\<close> is a dataclass without
  \<^verbatim>\<open>__bool__\<close> or \<^verbatim>\<open>__len__\<close>, so \<^verbatim>\<open>if citation_report:\<close> tests for \<^verbatim>\<open>None\<close> only.
\<close>

definition score_accuracy :: "MoatReport option \<Rightarrow> string \<Rightarrow> real" where
  "score_accuracy report reviewer_text =
     (let score0 = (case report of None \<Rightarrow> 0.5 | Some r \<Rightarrow> verification_rate r / 100.0);
          reviewer_lower = lower reviewer_text;
          score1 =
            (if str_in ''inaccurate'' reviewer_lower \<or> str_in ''incorrect'' reviewer_lower
             then score0 * 0.7
             else if str_in ''accurate'' reviewer_lower \<or> str_in ''correct'' reviewer_lower
             then min 1.0 (score0 * 1.2)
             else score0)
      in min 1.0 (max 0.0 score1))"

text \<open>\<^verbatim>\<open>ScoringSystem._score_evidence\<close>.\<close>

definition score_evidence :: "string \<Rightarrow> MoatReport option \<Rightarrow> real" where
  "score_evidence proponent_text report =
     (let score0 =
            (case report of
               None \<Rightarrow> 0.5
             | Some r \<Rightarrow>
                 if total_citations r > 0
                 then 0.3 + (real_of_int (verified_count r) / real_of_int (total_citations r)) * 0.7
                 else 0.2);
          response_lower = lower proponent_text;
          n = marker_count [''study shows'', ''research indicates'', ''evidence suggests'',
                ''data demonstrates''] response_lower;
          score1 = score0 + real n * 0.05
      in min 1.0 (max 0.0 score1))"

text \<open>\<^verbatim>\<open>ScoringSystem._score_logic\<close>.\<close>

definition score_logic :: "string \<Rightarrow> string \<Rightarrow> real" where
  "score_logic proponent_text reviewer_text =
     (let response_lower = lower proponent_text;
          reviewer_lower = lower reviewer_text;
          logic_count = marker_count [''therefore'', ''because'', ''thus'', ''consequently'',
                ''hence'', ''follows that''] response_lower;
          score1 = 0.6 + real logic_count * 0.05;
          fallacy_count = marker_count [''fallacy'', ''non sequitur'', ''circular'', ''strawman'',
                ''ad hominem''] reviewer_lower;
          score2 = score1 - real fallacy_count * 0.15
      in min 1.0 (max 0.0 score2))"

text \<open>\<^verbatim>\<open>ScoringSystem._score_methodology\<close>.\<close>

definition score_methodology :: "string \<Rightarrow> real" where
  "score_methodology proponent_text =
     (let response_lower = lower proponent_text;
          n = marker_count [''methodology'', ''systematic'', ''peer-reviewed'', ''replicated'',
                ''controlled''] response_lower;
          score1 = 0.6 + real n * 0.08;
          score2 = (if str_in ''limitation'' response_lower \<or> str_in ''caveat'' response_lower
                    then score1 + 0.1 else score1)
      in min 1.0 (max 0.0 score2))"

text \<open>\<^verbatim>\<open>ScoringSystem._score_clarity\<close>.\<close>

definition score_clarity :: "string \<Rightarrow> real" where
  "score_clarity proponent_text =
     (let word_count = length (split proponent_text);
          score1 = (if word_count > 1000 then 0.7 - 0.1
                    else if word_count < 100 then 0.7 - 0.1 else 0.7);
          n = marker_count [''first'', ''second'', ''finally'', ''in conclusion'',
                ''to summarize''] (lower proponent_text);
          score2 = score1 + real n * 0.05
      in min 1.0 (max 0.0 score2))"

text \<open>\<^verbatim>\<open>ScoringSystem.score_round\<close>.\<close>

definition score_round :: "string \<Rightarrow> string \<Rightarrow> MoatReport option \<Rightarrow> RoundScore" where
  "score_round proponent_text reviewer_text report =
     \<lparr>accuracy = score_accuracy report reviewer_text,
      evidence = score_evidence proponent_text report,
      logic = score_logic proponent_text reviewer_text,
      methodology = score_methodology proponent_text,
      clarity = score_clarity proponent_text\<rparr>"

section \<open>engine/voting.py\<close>

record VotingEngine =
  pass_threshold :: real
  max_retries :: int

text \<open>\<^verbatim>\<open>VotingEngine.CRITERIA\<close>, in the order of the dictionary: name and weight.\<close>

definition CRITERIA :: "(string \<times> real) list" where
  "CRITERIA = [(''accuracy'', 0.25), (''evidence'', 0.25), (''logic'', 0.20),
     (''methodology'', 0.15), (''clarity'', 0.15)]"

text \<open>
  \<^verbatim>\<open>self.CRITERIA[c]["weight"]\<close>. The only names looked up are those the loop over
  \<^verbatim>\<open>CRITERIA\<close> has just stored, so the lookup finds each of them; the branch for a
  missing key (a \<^verbatim>\<open>KeyError\<close> in the source) is never taken by \<^verbatim>\<open>vote\<close>.
\<close>

definition weight_of :: "string \<Rightarrow> real" where
  "weight_of crit = (case map_of CRITERIA crit of Some w \<Rightarrow> w | None \<Rightarrow> 0)"

text \<open>\<^verbatim>\<open>VotingEngine._analyze_criterion\<close>.\<close>

definition analyze_criterion :: "string \<Rightarrow> string \<Rightarrow> real" where
  "analyze_criterion crit pos =
     (let position_lower = lower pos;
          base_score =
            (if crit = ''accuracy'' then
               (let s1 = (if str_in ''[verified]'' position_lower \<or> str_in ''confirmed'' position_lower
                          then 60.0 + 20 else 60.0);
                    s2 = (if str_in ''citation removed'' position_lower then s1 - 15 else s1)
                in if str_in ''[claim:'' position_lower \<and> str_in ''[citation:'' position_lower
                   then s2 + 10 else s2)
             else if crit = ''evidence'' then
               (let citation_count = str_count ''[citation:'' position_lower
                      + str_count ''doi:'' position_lower + str_count ''http'' position_lower
                in 60.0 + real (min (citation_count * 5) 25))
             else if crit = ''logic'' then
               (let n = marker_count [''therefore'', ''because'', ''thus'', ''hence'',
                          ''consequently''] position_lower;
                    s1 = 60.0 + real (min (n * 5) 20)
                in if str_in ''fallacy'' position_lower \<or> str_in ''invalid'' position_lower
                   then s1 - 10 else s1)
             else if crit = ''methodology'' then
               (let n = marker_count [''systematic'', ''peer-reviewed'', ''methodology'',
                          ''analysis''] position_lower
                in 60.0 + real (min (n * 5) 20))
             else if crit = ''clarity'' then
               (let n = marker_count [''first,'', ''second,'', ''finally,'', ''in summary'']
                          position_lower;
                    s1 = 60.0 + real (min (n * 5) 15)
                in if length pos > 5000 \<and> n < 2 then s1 - 10 else s1)
             else 60.0)
      in min 100.0 (max 0.0 base_score))"

text \<open>\<^verbatim>\<open>VotingEngine._vote_criterion\<close>.\<close>

definition vote_criterion :: "VotingEngine \<Rightarrow> string \<Rightarrow> string \<Rightarrow> CriterionVote" where
  "vote_criterion eng crit pos =
     (let sc = analyze_criterion crit pos
      in \<lparr>criterion = crit, score = sc,
          vote_status = (if sc \<ge> pass_threshold eng then PASS
                         else if sc \<ge> pass_threshold eng * 0.7 then ABSTAIN else FAIL)\<rparr>)"

text \<open>
  \<^verbatim>\<open>VotingEngine.vote\<close>. The loop over \<^verbatim>\<open>CRITERIA\<close> fills the list of votes and the
  dictionary of scores in the same order; the weighted average looks each weight up by
  the name of its criterion.
\<close>

definition vote :: "VotingEngine \<Rightarrow> string \<Rightarrow> VotingResult" where
  "vote eng pos =
     (let votes = map (\<lambda>(crit, w). vote_criterion eng crit pos) CRITERIA;
          scores = map (\<lambda>v. (criterion v, score v)) votes;
          weighted_avg = sum_list (map (\<lambda>(crit, sc). sc * weight_of crit) scores)
      in \<lparr>passed = (weighted_avg \<ge> pass_threshold eng),
          weighted_average = weighted_avg,
          criterion_scores = scores,
          criterion_votes = votes,
          voting_rounds = int (length votes)\<rparr>)"

section \<open>engine/adaptive\_debate.py\<close>

text \<open>
  The two agents are oracles, as in the moat: a call maps the state of the world to the
  content of the response, or to the exception the call raised, and to the next state of
  the world. Only the methods that \<^verbatim>\<open>run_debate\<close> calls are fields of the records.
\<close>

record 'w ProponentAgent =
  generate_initial_position :: "string \<Rightarrow> string option \<Rightarrow> 'w reply"
  respond_to_critique :: "string \<Rightarrow> string \<Rightarrow> 'w reply"
  provide_final_position :: "'w reply"
  generate_response :: "string \<Rightarrow> 'w reply"

record 'w ReviewerAgent =
  review_position :: "string \<Rightarrow> string option \<Rightarrow> 'w reply"

text \<open>
  \<^verbatim>\<open>AdaptiveDebateEngine\<close>. The scorer has no state and is not a field. The field
  \<^verbatim>\<open>feedback_text\<close> stands for the attribute \<^verbatim>\<open>feedback\<close> of a voting result, which the
  record \<^typ>\<open>VotingResult\<close> leaves out: the text is only pasted into the prompt of a
  revision, and the prompt is only read by the oracle.
\<close>

record 'w AdaptiveDebateEngine =
  debate_proponent :: "'w ProponentAgent"
  debate_reviewer :: "'w ReviewerAgent"
  max_rounds :: int
  quality_threshold :: real
  convergence_rounds :: int
  voting_engine :: VotingEngine
  citation_moat :: "'w CitationMoatEngine"
  feedback_text :: "VotingResult \<Rightarrow> string"

text \<open>
  The local variables of the round loop of \<^verbatim>\<open>run_debate\<close>, together with
  \<^verbatim>\<open>self.status\<close> and \<^verbatim>\<open>self.rounds\<close>.
\<close>

record debate_state =
  st_status :: DebateStatus
  st_round_num :: int
  st_recent_scores :: "real list"
  st_rounds :: "DebateRound list"
  st_position :: string

text \<open>
  \<^verbatim>\<open>AdaptiveDebateEngine._check_convergence\<close>. Floats are real numbers here. With an
  empty list that is not shorter than \<^verbatim>\<open>convergence_rounds\<close> (so
  \<^verbatim>\<open>convergence_rounds\<close> is zero or negative) the division by \<^verbatim>\<open>len(recent_scores)\<close>
  raises.
\<close>

definition check_convergence :: "int \<Rightarrow> real list \<Rightarrow> py_exception + bool" where
  "check_convergence cr recent_scores =
     (if int (length recent_scores) < cr then Inr False
      else if recent_scores = [] then Inl (PyException ''ZeroDivisionError'')
      else (let avg = sum_list recent_scores / real (length recent_scores);
                variance = sum_list (map (\<lambda>s. (s - avg) ^ 2) recent_scores)
                             / real (length recent_scores)
            in Inr (variance < 25.0)))"

text \<open>
  The update of \<^verbatim>\<open>recent_scores\<close> in the round loop: \<^verbatim>\<open>append\<close>, then \<^verbatim>\<open>pop(0)\<close>
  when the list is longer than \<^verbatim>\<open>convergence_rounds\<close>.
\<close>

definition push_score :: "int \<Rightarrow> real list \<Rightarrow> real \<Rightarrow> real list" where
  "push_score cr recent_scores x =
     (let appended = recent_scores @ [x]
      in if int (length appended) > cr then tl appended else appended)"

text \<open>
  The end of the body of the round loop: the convergence check, then the quality
  threshold. The boolean of the result says whether the loop executes \<^verbatim>\<open>break\<close>.
\<close>

definition round_exit ::
  "'w AdaptiveDebateEngine \<Rightarrow> debate_state \<Rightarrow> real \<Rightarrow> py_exception + bool \<times> debate_state" where
  "round_exit eng s round_total_score =
     (case check_convergence (convergence_rounds eng) (st_recent_scores s) of
        Inl e \<Rightarrow> Inl e
      | Inr True \<Rightarrow> Inr (True, s\<lparr>st_status := CONVERGED\<rparr>)
      | Inr False \<Rightarrow>
          if round_total_score \<ge> quality_threshold eng
             \<and> int (length (st_recent_scores s)) \<ge> convergence_rounds eng
             \<and> list_all (\<lambda>x. x \<ge> quality_threshold eng) (st_recent_scores s)
          then Inr (True, s\<lparr>st_status := CONSENSUS_REACHED\<rparr>)
          else Inr (False, s))"

text \<open>
  One iteration of the round loop of \<^verbatim>\<open>run_debate\<close>: review, defense, the moat on
  both texts, the score of the round, the record of the round, and the two checks. An
  exception of an agent leaves the loop and the whole call.
\<close>

definition loop_body ::
  "'w AdaptiveDebateEngine \<Rightarrow> string option \<Rightarrow> debate_state \<Rightarrow> 'w \<Rightarrow>
     (py_exception + bool \<times> debate_state) \<times> 'w" where
  "loop_body eng context s w =
     (let round_num = st_round_num s + 1
      in case review_position (debate_reviewer eng) (st_position s) context w of
           (Inl e, w1) \<Rightarrow> (Inl e, w1)
         | (Inr review, w1) \<Rightarrow>
        (case respond_to_critique (debate_proponent eng) review (st_position s) w1 of
           (Inl e, w2) \<Rightarrow> (Inl e, w2)
         | (Inr defense, w2) \<Rightarrow>
        (let combined_text = defense @ [CHR 0x0A] @ review;
             (report, w3) = verify_text (citation_moat eng) combined_text w2;
             rs = score_round defense review (Some report);
             debate_round = \<lparr>round_number = round_num, proponent_response = defense,
                reviewer_response = review, proponent_claims = [], reviewer_critiques = [],
                round_score = Some rs, citation_report = Some report\<rparr>;
             s1 = s\<lparr>st_round_num := round_num, st_rounds := st_rounds s @ [debate_round],
                    st_position := defense,
                    st_recent_scores :=
                      push_score (convergence_rounds eng) (st_recent_scores s) (total_score rs)\<rparr>
         in (round_exit eng s1 (total_score rs), w3))))"

text \<open>
  The round loop, \<^verbatim>\<open>while round_num < self.max_rounds\<close>. Every iteration that does not
  raise adds one to \<^verbatim>\<open>round_num\<close>, so the loop ends.
\<close>

function run_rounds ::
  "'w AdaptiveDebateEngine \<Rightarrow> string option \<Rightarrow> debate_state \<Rightarrow> 'w \<Rightarrow>
     (py_exception + debate_state) \<times> 'w" where
  "run_rounds eng context s w =
     (if st_round_num s < max_rounds eng
      then (case loop_body eng context s w of
              (Inl e, w1) \<Rightarrow> (Inl e, w1)
            | (Inr (brk, s1), w1) \<Rightarrow>
                if brk then (Inr s1, w1) else run_rounds eng context s1 w1)
      else (Inr s, w))"
  by pat_completeness auto
termination
  by (relation "measure (\<lambda>(eng, context, s, w). nat (max_rounds eng - st_round_num s))")
     (auto simp: loop_body_def round_exit_def Let_def
           split: prod.splits sum.splits bool.splits if_splits)

declare run_rounds.simps [simp del]

text \<open>
  \<^verbatim>\<open>', '.join\<close> and the decimal notation of an integer in an f-string.
\<close>

fun str_join :: "string \<Rightarrow> string list \<Rightarrow> string" where
  "str_join sep [] = []"
| "str_join sep [x] = x"
| "str_join sep (x # xs) = x @ sep @ str_join sep xs"

fun str_of_nat :: "nat \<Rightarrow> string" where
  "str_of_nat n =
     (if n < 10 then [''0123456789'' ! n]
      else str_of_nat (n div 10) @ [''0123456789'' ! (n mod 10)])"

declare str_of_nat.simps [simp del]

definition str_of_int :: "int \<Rightarrow> string" where
  "str_of_int i = (if i < 0 then ''-'' @ str_of_nat (nat (- i)) else str_of_nat (nat i))"

text \<open>
  \<^verbatim>\<open>AdaptiveDebateEngine._request_revision\<close>.
\<close>

definition request_revision ::
  "'w AdaptiveDebateEngine \<Rightarrow> string \<Rightarrow> VotingResult \<Rightarrow> 'w reply" where
  "request_revision eng current_position vr w =
     (let failed_criteria =
            map fst (filter (\<lambda>(c, s). s < pass_threshold (voting_engine eng)) (criterion_scores vr));
          prompt = ''Your position failed voting on these criteria: ''
            @ str_join '', '' failed_criteria
            @ [CHR 0x0A, CHR 0x0A] @ ''Current position:'' @ [CHR 0x0A] @ current_position
            @ [CHR 0x0A, CHR 0x0A] @ ''Feedback:'' @ [CHR 0x0A] @ feedback_text eng vr
            @ [CHR 0x0A, CHR 0x0A]
            @ ''Please revise your position to specifically address these issues.''
            @ [CHR 0x0A] @ ''Focus on improving: '' @ str_join '', '' failed_criteria
      in generate_response (debate_proponent eng) prompt w)"

text \<open>
  The re-evaluation loop of \<^verbatim>\<open>run_debate\<close>,
  \<^verbatim>\<open>while not voting_result.passed and re_evaluations < 3\<close>. The bound is the literal
  of the source; the loop does not read \<^verbatim>\<open>self.voting_engine.max_retries\<close>.
\<close>

function revote_loop ::
  "'w AdaptiveDebateEngine \<Rightarrow> int \<Rightarrow> string \<Rightarrow> VotingResult \<Rightarrow> 'w \<Rightarrow>
     (py_exception + int \<times> string \<times> VotingResult) \<times> 'w" where
  "revote_loop eng re_evals current_position vr w =
     (if \<not> passed vr \<and> re_evals < 3
      then (case request_revision eng current_position vr w of
              (Inl e, w1) \<Rightarrow> (Inl e, w1)
            | (Inr revision, w1) \<Rightarrow>
                revote_loop eng (re_evals + 1) revision (vote (voting_engine eng) revision) w1)
      else (Inr (re_evals, current_position, vr), w))"
  by pat_completeness auto
termination
  by (relation "measure (\<lambda>(eng, re_evals, current_position, vr, w). nat (3 - re_evals))") auto

declare revote_loop.simps [simp del]

text \<open>
  \<^verbatim>\<open>AdaptiveDebateEngine._extract_points\<close>, over the last three rounds.
\<close>

definition extract_points :: "DebateRound list \<Rightarrow> string list \<times> string list" where
  "extract_points rs =
     (let last3 = drop (length rs - 3) rs
      in (concat (map (\<lambda>r. let content = lower (proponent_response r)
                            in if str_in ''agree'' content \<or> str_in ''concede'' content
                               then [''Round '' @ str_of_int (round_number r) @ '': Agreement reached'']
                               else []) last3),
          concat (map (\<lambda>r. let content = lower (proponent_response r)
                            in if str_in ''disagree'' content \<or> str_in ''dispute'' content
                               then [''Round '' @ str_of_int (round_number r) @ '': Dispute continues'']
                               else []) last3)))"

text \<open>
  \<^verbatim>\<open>AdaptiveDebateEngine.run_debate\<close>.
\<close>

definition run_debate ::
  "'w AdaptiveDebateEngine \<Rightarrow> string \<Rightarrow> string option \<Rightarrow> 'w \<Rightarrow> (py_exception + DebateResult) \<times> 'w" where
  "run_debate eng question context w =
     (case generate_initial_position (debate_proponent eng) question context w of
        (Inl e, w1) \<Rightarrow> (Inl e, w1)
      | (Inr initial, w1) \<Rightarrow>
     (case run_rounds eng context
             \<lparr>st_status = IN_PROGRESS, st_round_num = 0, st_recent_scores = [], st_rounds = [],
              st_position = initial\<rparr> w1 of
        (Inl e, w2) \<Rightarrow> (Inl e, w2)
      | (Inr s, w2) \<Rightarrow>
     (let final_status = (if st_status s = IN_PROGRESS then MAX_ROUNDS_REACHED else st_status s)
      in case revote_loop eng 0 (st_position s) (vote (voting_engine eng) (st_position s)) w2 of
        (Inl e, w3) \<Rightarrow> (Inl e, w3)
      | (Inr (re_evals, current_position, vr), w3) \<Rightarrow>
     (case provide_final_position (debate_proponent eng) w3 of
        (Inl e, w4) \<Rightarrow> (Inl e, w4)
      | (Inr final, w4) \<Rightarrow>
          (let (consensus, disputed) = extract_points (st_rounds s)
           in (Inr \<lparr>debate_status = final_status, total_rounds = int (length (st_rounds s)),
                    final_position = final, final_score = weighted_average vr,
                    voting_result = Some vr, rounds = st_rounds s,
                    consensus_points = consensus, disputed_points = disputed,
                    re_evaluations = re_evals\<rparr>, w4))))))"

section \<open>Functions of the specification\<close>

text \<open>
  The table of the specification, as a function of the four inputs it names: the web
  status, the two agent verdicts and the strict-mode flag.
\<close>

definition decision_table :: "ValidationStatus \<Rightarrow> bool \<Rightarrow> bool \<Rightarrow> bool \<Rightarrow> MoatDecision" where
  "decision_table web_status agent_a agent_b strict =
     (if web_status = VERIFIED then (if agent_a \<and> agent_b then KEEP else FLAG)
      else if web_status = PARTIAL_MATCH then (if agent_a \<or> agent_b then MODIFY else FLAG)
      else if strict then DELETE else FLAG)"

text \<open>
  The least number of characters a pattern consumes when it matches.
\<close>

fun min_len :: "rx \<Rightarrow> nat" where
  "min_len Eps = 0"
| "min_len (Chr c) = 1"
| "min_len (Cls cs) = 1"
| "min_len (NCls cs) = 1"
| "min_len (Seq a b) = min_len a + min_len b"
| "min_len (Alt a b) = min (min_len a) (min_len b)"
| "min_len (Rep lo hi r) = lo * min_len r"
| "min_len (Grp n r) = min_len r"
| "min_len WordB = 0"

text \<open>
  The start and the end of the span of a citation, and what it means for a list of
  citations to be ordered with spans that do not overlap: each citation ends before the
  next one starts.
\<close>

abbreviation span_start :: "ExtractedCitation \<Rightarrow> nat" where
  "span_start c \<equiv> fst (position c)"

abbreviation span_end :: "ExtractedCitation \<Rightarrow> nat" where
  "span_end c \<equiv> snd (position c)"

definition disjoint_spans :: "ExtractedCitation list \<Rightarrow> bool" where
  "disjoint_spans cs = sorted_wrt (\<lambda>a b. span_end a \<le> span_start b) cs"

text \<open>
  \<open>spans_from n p xs\<close>: the spans \<open>xs\<close> follow each other from position \<open>p\<close> on, inside
  a text of length \<open>n\<close>.
\<close>

fun spans_from :: "nat \<Rightarrow> nat \<Rightarrow> (nat \<times> nat) list \<Rightarrow> bool" where
  "spans_from n p [] = (p \<le> n)"
| "spans_from n p ((s, e) # xs) = (p \<le> s \<and> s \<le> e \<and> spans_from n e xs)"

text \<open>
  The text that the specification describes for the rewrite: a deleted citation is
  replaced by the marker for a removed citation, a flagged citation is wrapped in the
  marker for review, and the span of every other citation stays as it is
  (\<open>replacement\<close>); the text between the spans, before the first and after the last
  stays as it is (\<open>rewritten\<close>, from the left, \<open>p\<close> being the position reached).
\<close>

definition replacement :: "string \<Rightarrow> CitationVerification \<Rightarrow> string" where
  "replacement original v =
     (let (start, end') = position (original_citation v)
      in if decision v = DELETE then ''[CITATION REMOVED]''
         else if decision v = FLAG then ''[NEEDS REVIEW: '' @ slice original start end' @ '']''
         else slice original start end')"

fun rewritten :: "string \<Rightarrow> nat \<Rightarrow> CitationVerification list \<Rightarrow> string" where
  "rewritten original p [] = drop p original"
| "rewritten original p (v # vs) =
     slice original p (fst (position (original_citation v))) @ replacement original v
     @ rewritten original (snd (position (original_citation v))) vs"







section \<open>Concrete inputs used by the witnesses\<close>

definition citation0 :: ExtractedCitation where
  "citation0 = \<lparr>raw_text = ''(Smith, 2024)'', citation_type = AUTHOR_YEAR, position = (4, 17),
     authors = Some ''Smith'', year = Some ''2024'', doi = None, url = None, number = None\<rparr>"

definition web0 :: "ValidationStatus \<Rightarrow> ValidationResult" where
  "web0 st = \<lparr>status = st, confidence = 0, source = None, matched_title = None,
     matched_url = None, matched_doi = None, error_message = None, search_queries_used = []\<rparr>"

definition verification0 :: "ValidationStatus \<Rightarrow> bool \<Rightarrow> bool \<Rightarrow> CitationVerification" where
  "verification0 st a b = \<lparr>original_citation = citation0, decision = DELETE,
     agent_a_verified = a, agent_b_verified = b, web_validation = Some (web0 st),
     doi_metadata = None, alternative_source = None, reason = [], cv_confidence = 0\<rparr>"

definition report0 :: "int \<Rightarrow> int \<Rightarrow> MoatReport" where
  "report0 n m = \<lparr>total_citations = n, verified_count = m, modified_count = 0,
     deleted_count = 0, flagged_count = 0, verifications = [], clean_text = []\<rparr>"

definition voting0 :: "bool \<Rightarrow> real \<Rightarrow> VotingResult" where
  "voting0 p avg = \<lparr>passed = p, weighted_average = avg, criterion_scores = [],
     criterion_votes = [], voting_rounds = 0\<rparr>"

definition debate0 :: "DebateStatus \<Rightarrow> real \<Rightarrow> DebateResult" where
  "debate0 st sc = \<lparr>debate_status = st, total_rounds = 0, final_position = [],
     final_score = sc, voting_result = None, rounds = [], consensus_points = [],
     disputed_points = [], re_evaluations = 0\<rparr>"

definition engine0 :: VotingEngine where
  "engine0 = \<lparr>pass_threshold = 75, max_retries = 3\<rparr>"

text \<open>
  A moat whose two agents fail on every call, on a world that counts the calls made to it.
  Its web validator verifies what carries a DOI and finds nothing else.
\<close>

definition failing_agent :: "string \<Rightarrow> string \<Rightarrow> nat reply" where
  "failing_agent claim citation w = (Inl (PyException ''backend unavailable''), Suc w)"

definition doi_validator :: "string \<Rightarrow> string option \<Rightarrow> string option \<Rightarrow> nat \<Rightarrow> ValidationResult \<times> nat" where
  "doi_validator query d u w = (web0 (if truthy d then VERIFIED else NOT_FOUND), Suc w)"

definition no_resolver :: "string \<Rightarrow> nat \<Rightarrow> DOIMetadata \<times> nat" where
  "no_resolver d w =
     (\<lparr>md_title = None, md_authors = [], md_year = None, md_resolved = False\<rparr>, Suc w)"

definition failing_moat :: "nat CitationMoatEngine" where
  "failing_moat = \<lparr>proponent = Some failing_agent, reviewer = Some failing_agent,
     strict_mode = True, web_validator = doi_validator, doi_resolver = no_resolver\<rparr>"

text \<open>
  A moat without strict mode whose validator finds a partial match for everything, whose
  first agent confirms every citation and whose second agent is not configured.
\<close>

definition confirming_agent :: "string \<Rightarrow> string \<Rightarrow> nat reply" where
  "confirming_agent claim citation w = (Inr ''VERIFIED: the source exists'', Suc w)"

definition partial_validator :: "string \<Rightarrow> string option \<Rightarrow> string option \<Rightarrow> nat \<Rightarrow> ValidationResult \<times> nat" where
  "partial_validator query d u w = (web0 PARTIAL_MATCH, Suc w)"

definition partial_moat :: "nat CitationMoatEngine" where
  "partial_moat = \<lparr>proponent = Some confirming_agent, reviewer = None,
     strict_mode = False, web_validator = partial_validator, doi_resolver = no_resolver\<rparr>"

text \<open>A URL citation and a DOI citation inside its span.\<close>

definition url_citation :: ExtractedCitation where
  "url_citation = \<lparr>raw_text = ''https://example.com/10.1234/x'', citation_type = URL,
     position = (0, 29), authors = None, year = None, doi = None,
     url = Some ''https://example.com/10.1234/x'', number = None\<rparr>"

definition doi_citation :: ExtractedCitation where
  "doi_citation = \<lparr>raw_text = ''10.1234/x'', citation_type = DOI, position = (20, 29),
     authors = None, year = None, doi = Some ''10.1234/x'', url = None, number = None\<rparr>"

text \<open>
  A debate engine whose agents always answer the same short texts, over a world that
  counts the calls. Every round scores 60 and every vote fails with 60 against the
  threshold 75.
\<close>

definition fixed_reply :: "string \<Rightarrow> nat reply" where
  "fixed_reply s w = (Inr s, Suc w)"

definition quiet_engine :: "int \<Rightarrow> int \<Rightarrow> nat AdaptiveDebateEngine" where
  "quiet_engine n_rounds n_retries =
     \<lparr>debate_proponent =
        \<lparr>generate_initial_position = (\<lambda>q c. fixed_reply ''yes''),
         respond_to_critique = (\<lambda>r p. fixed_reply ''yes''),
         provide_final_position = fixed_reply ''yes'',
         generate_response = (\<lambda>p. fixed_reply ''yes'')\<rparr>,
      debate_reviewer = \<lparr>review_position = (\<lambda>p c. fixed_reply ''no'')\<rparr>,
      max_rounds = n_rounds, quality_threshold = 85, convergence_rounds = 3,
      voting_engine = \<lparr>pass_threshold = 75, max_retries = n_retries\<rparr>,
      citation_moat = failing_moat,
      feedback_text = (\<lambda>vr. [])\<rparr>"

section \<open>The moat's decision table\<close>

lemma make_decision_fst:
  "web_validation v = Some web \<Longrightarrow>
   \<exists>why. make_decision strict v =
     Some (decision_table (status web) (agent_a_verified v) (agent_b_verified v) strict, why)"
  by (cases "status web") (auto simp: make_decision_def decision_table_def Let_def)

lemma make_decision_not_None: "web_validation v = Some web \<Longrightarrow> make_decision strict v \<noteq> None"
  by (simp add: make_decision_def Let_def)

lemma make_decision_Some:
  "make_decision strict v = Some (d, why) \<Longrightarrow> web_validation v = Some web \<Longrightarrow>
   d = decision_table (status web) (agent_a_verified v) (agent_b_verified v) strict"
  using make_decision_fst [of v web strict] by auto

lemma verify_single_decided:
  assumes "verify_single_citation eng c w = (v, w')"
  shows "\<exists>web. web_validation v = Some web \<and> alternative_source v = None \<and> original_citation v = c \<and>
           decision v = decision_table (status web) (agent_a_verified v) (agent_b_verified v) (strict_mode eng)"
  using assms
  by (auto simp: verify_single_citation_def Let_def make_decision_not_None
      split: prod.splits option.splits if_splits dest!: make_decision_Some)

lemma verify_citations_decided:
  "verify_citations eng cs w = (vs, w') \<Longrightarrow> v \<in> set vs \<Longrightarrow>
   \<exists>web. web_validation v = Some web \<and> alternative_source v = None \<and>
     decision v = decision_table (status web) (agent_a_verified v) (agent_b_verified v) (strict_mode eng)"
proof (induction cs arbitrary: w vs w')
  case Nil
  then show ?case by simp
next
  case (Cons c cs)
  obtain v1 w1 where a: "verify_single_citation eng c w = (v1, w1)"
    by (cases "verify_single_citation eng c w")
  obtain vs1 w2 where b: "verify_citations eng cs w1 = (vs1, w2)"
    by (cases "verify_citations eng cs w1")
  have vs: "vs = v1 # vs1" using Cons.prems(1) a b by simp
  show ?case
  proof (cases "v = v1")
    case True
    then show ?thesis using verify_single_decided [OF a] by blast
  next
    case False
    then have "v \<in> set vs1" using Cons.prems(2) vs by simp
    then show ?thesis using Cons.IH [OF b] by blast
  qed
qed

lemma verify_citations_original:
  "map original_citation (fst (verify_citations eng cs w)) = cs"
proof (induction cs arbitrary: w)
  case Nil
  then show ?case by simp
next
  case (Cons c cs)
  obtain v w1 where v: "verify_single_citation eng c w = (v, w1)"
    by (cases "verify_single_citation eng c w")
  obtain vs w2 where vs: "verify_citations eng cs w1 = (vs, w2)"
    by (cases "verify_citations eng cs w1")
  have oc: "original_citation v = c"
    using verify_single_decided [OF v] by blast
  show ?case using Cons.IH [of w1] v vs oc by simp
qed

lemma verify_citations_length: "length (fst (verify_citations eng cs w)) = length cs"
  using verify_citations_original [of eng cs w] by (metis length_map)

lemma count_step_sum:
  "verified_count (count_step r v) + modified_count (count_step r v)
     + deleted_count (count_step r v) + flagged_count (count_step r v)
   = verified_count r + modified_count r + deleted_count r + flagged_count r + 1
   \<and> total_citations (count_step r v) = total_citations r
   \<and> verifications (count_step r v) = verifications r"
  by (cases "decision v") (simp_all add: count_step_def)

lemma count_loop_sum:
  "verified_count (foldl count_step r vs) + modified_count (foldl count_step r vs)
     + deleted_count (foldl count_step r vs) + flagged_count (foldl count_step r vs)
   = verified_count r + modified_count r + deleted_count r + flagged_count r + int (length vs)
   \<and> total_citations (foldl count_step r vs) = total_citations r
   \<and> verifications (foldl count_step r vs) = verifications r"
proof (induction vs arbitrary: r)
  case Nil
  then show ?case by simp
next
  case (Cons v vs)
  show ?case using Cons.IH [of "count_step r v"] count_step_sum [of r v] by simp
qed

lemma verify_text_report:
  assumes "extract_all text \<noteq> []" and "verify_citations eng (extract_all text) w = (vs, w1)"
  shows "fst (verify_text eng text w) =
    (foldl count_step \<lparr>total_citations = int (length (extract_all text)), verified_count = 0,
                     modified_count = 0, deleted_count = 0, flagged_count = 0,
                     verifications = vs, clean_text = []\<rparr> vs)\<lparr>clean_text := generate_clean_text text vs\<rparr>"
  using assms by (simp add: verify_text_def Let_def)

lemma verify_text_verifications:
  "verifications (fst (verify_text eng text w)) =
     (if extract_all text = [] then [] else fst (verify_citations eng (extract_all text) w))"
proof (cases "extract_all text = []")
  case True
  then show ?thesis by (simp add: verify_text_def Let_def)
next
  case False
  obtain vs w1 where vs: "verify_citations eng (extract_all text) w = (vs, w1)"
    by (cases "verify_citations eng (extract_all text) w")
  show ?thesis
    using False vs count_loop_sum [of "\<lparr>total_citations = int (length (extract_all text)),
        verified_count = 0, modified_count = 0, deleted_count = 0, flagged_count = 0,
        verifications = vs, clean_text = []\<rparr>" vs]
    by (simp add: verify_text_report [OF False vs])
qed

text \<open>
  C1. For every citation that \<open>verify_text\<close> has processed, the decision is a function of
  the web status, the verdict of agent A, the verdict of agent B and the strict-mode flag
  of the engine alone: it is the entry of the table for these four, whatever else the
  verification holds. That entry is KEEP exactly for a verified web status with both
  verdicts true; MODIFY exactly for a partial match with at least one verdict true; for a
  verified or partial-match web status, FLAG exactly when the web status is a partial
  match with both verdicts false, or verified with not both verdicts true; and for every
  other web status (not found, error, pending) DELETE under strict mode and FLAG
  without it.
\<close>

theorem moat_decision_table:
  assumes "v \<in> set (verifications (fst (verify_text eng text w)))"
  shows "\<exists>web. web_validation v = Some web \<and>
           decision v = decision_table (status web) (agent_a_verified v) (agent_b_verified v)
                          (strict_mode eng) \<and>
           (decision v = KEEP \<longleftrightarrow>
              status web = VERIFIED \<and> agent_a_verified v \<and> agent_b_verified v) \<and>
           (decision v = MODIFY \<longleftrightarrow>
              status web = PARTIAL_MATCH \<and> (agent_a_verified v \<or> agent_b_verified v)) \<and>
           (status web = VERIFIED \<or> status web = PARTIAL_MATCH \<longrightarrow>
              (decision v = FLAG \<longleftrightarrow>
                 (status web = PARTIAL_MATCH \<and> \<not> agent_a_verified v \<and> \<not> agent_b_verified v) \<or>
                 (status web = VERIFIED \<and> \<not> (agent_a_verified v \<and> agent_b_verified v)))) \<and>
           (status web \<noteq> VERIFIED \<and> status web \<noteq> PARTIAL_MATCH \<longrightarrow>
              decision v = (if strict_mode eng then DELETE else FLAG))"
proof -
  obtain vs w1 where vs: "verify_citations eng (extract_all text) w = (vs, w1)"
    by (cases "verify_citations eng (extract_all text) w")
  have "v \<in> set vs"
    using assms vs by (simp add: verify_text_verifications split: if_splits)
  then obtain web where web: "web_validation v = Some web"
    and d: "decision v = decision_table (status web) (agent_a_verified v) (agent_b_verified v)
              (strict_mode eng)"
    using verify_citations_decided [OF vs] by blast
  show ?thesis
    using web d by (auto simp: decision_table_def)
qed

theorem moat_decision_table_witness:
  "map (\<lambda>v. (map_option status (web_validation v), agent_a_verified v, agent_b_verified v, decision v))
       (verifications (fst (verify_text failing_moat ''see https://doi.org/10.1234/x, [7]'' 0)))
     = [(Some VERIFIED, True, True, KEEP), (Some NOT_FOUND, False, False, DELETE)] \<and>
   (\<exists>web. web_validation
             (hd (verifications (fst (verify_text failing_moat ''see https://doi.org/10.1234/x, [7]'' 0))))
           = Some web \<and> status web = VERIFIED)"
proof -
  have run: "map (\<lambda>v. (map_option status (web_validation v), agent_a_verified v, agent_b_verified v,
                    decision v))
       (verifications (fst (verify_text failing_moat ''see https://doi.org/10.1234/x, [7]'' 0)))
     = [(Some VERIFIED, True, True, KEEP), (Some NOT_FOUND, False, False, DELETE)]"
    by code_simp
  then have ne: "verifications (fst (verify_text failing_moat ''see https://doi.org/10.1234/x, [7]'' 0)) \<noteq> []"
    by auto
  have hd: "map_option status (web_validation
      (hd (verifications (fst (verify_text failing_moat ''see https://doi.org/10.1234/x, [7]'' 0)))))
      = Some VERIFIED"
    using run ne by (cases "verifications (fst (verify_text failing_moat ''see https://doi.org/10.1234/x, [7]'' 0))") auto
  show ?thesis
    using run hd
      moat_decision_table [of "hd (verifications (fst (verify_text failing_moat
          ''see https://doi.org/10.1234/x, [7]'' 0)))" failing_moat
          "''see https://doi.org/10.1234/x, [7]''" 0] ne
    by auto
qed

section \<open>The verification rate of a report\<close>

lemma round_half_even_error: "\<bar>of_int (round_half_even y) - y\<bar> \<le> 1 / 2"
proof -
  define d where "d = y - of_int \<lfloor>y\<rfloor>"
  have d: "0 \<le> d" "d < 1" unfolding d_def by linarith+
  have y: "y = of_int \<lfloor>y\<rfloor> + d" by (simp add: d_def)
  have "round_half_even y = \<lfloor>y\<rfloor> \<and> d \<le> 1 / 2 \<or> round_half_even y = \<lfloor>y\<rfloor> + 1 \<and> 1 / 2 \<le> d"
    unfolding round_half_even_def Let_def d_def [symmetric] by auto
  then show ?thesis
  proof
    assume a: "round_half_even y = \<lfloor>y\<rfloor> \<and> d \<le> 1 / 2"
    then have "of_int (round_half_even y) - y = - d" using y by simp
    then show ?thesis using a d by simp
  next
    assume a: "round_half_even y = \<lfloor>y\<rfloor> + 1 \<and> 1 / 2 \<le> d"
    then have "of_int (round_half_even y) - y = 1 - d" using y by simp
    then show ?thesis using a d by simp
  qed
qed

lemma bitlen_powi:
  assumes "0 < n"
  shows "(2::rat) powi (bitlen n - 1) \<le> of_int n" and "(of_int n :: rat) < 2 powi bitlen n"
proof -
  from bitlen_bounds [OF assms] have a: "2 ^ nat (bitlen n - 1) \<le> n" and b: "n < 2 ^ nat (bitlen n)"
    by simp_all
  have ge: "1 \<le> bitlen n" using assms by (auto simp: bitlen_alt_def)
  have "(of_int (2 ^ nat (bitlen n - 1)) :: rat) \<le> of_int n" using a by (simp only: of_int_le_iff)
  then show "(2::rat) powi (bitlen n - 1) \<le> of_int n" using ge by (simp add: power_int_def)
  have "(of_int n :: rat) < of_int (2 ^ nat (bitlen n))" using b by (simp only: of_int_less_iff)
  then show "(of_int n :: rat) < 2 powi bitlen n" using ge by (simp add: power_int_def)
qed

lemma float_exponent_bounds:
  assumes "x \<noteq> 0"
  shows "2 powi float_exponent x \<le> \<bar>x\<bar>" and "\<bar>x\<bar> < 2 powi (float_exponent x + 1)"
proof -
  obtain p q where pq: "quotient_of x = (p, q)" by (cases "quotient_of x")
  have q: "0 < q" using quotient_of_denom_pos [OF pq] .
  have x: "x = of_int p / of_int q" using quotient_of_div [OF pq] .
  have p: "0 < \<bar>p\<bar>" using assms x by auto
  define d where "d = bitlen \<bar>p\<bar> - bitlen q"
  have "\<bar>x\<bar> = \<bar>of_int p\<bar> / \<bar>of_int q\<bar>" by (simp only: x abs_divide)
  then have ax: "\<bar>x\<bar> = of_int \<bar>p\<bar> / of_int q" using q by simp
  have qpos: "(0::rat) < of_int q" using q by simp
  have lo: "(2::rat) powi (d - 1) < \<bar>x\<bar>"
  proof -
    have "(2::rat) powi (d - 1) = 2 powi (bitlen \<bar>p\<bar> - 1) / 2 powi bitlen q"
      by (simp add: d_def power_int_diff)
    also have "\<dots> \<le> of_int \<bar>p\<bar> / 2 powi bitlen q"
      using bitlen_powi(1) [OF p] by (simp add: divide_right_mono)
    also have "\<dots> < of_int \<bar>p\<bar> / of_int q"
      using bitlen_powi(2) [OF q] p qpos by (simp add: divide_strict_left_mono)
    finally show ?thesis by (simp add: ax)
  qed
  have hi: "\<bar>x\<bar> < (2::rat) powi (d + 1)"
  proof -
    have "\<bar>x\<bar> = of_int \<bar>p\<bar> / of_int q" by (rule ax)
    also have "\<dots> < 2 powi bitlen \<bar>p\<bar> / of_int q"
      using bitlen_powi(2) [OF p] qpos by (simp add: divide_strict_right_mono)
    also have "\<dots> \<le> 2 powi bitlen \<bar>p\<bar> / 2 powi (bitlen q - 1)"
      using bitlen_powi(1) [OF q] qpos
      by (intro divide_left_mono) (simp_all add: zero_less_mult_iff)
    also have "\<dots> = 2 powi (bitlen \<bar>p\<bar> - (bitlen q - 1))"
      by (rule power_int_diff [symmetric]) simp
    also have "bitlen \<bar>p\<bar> - (bitlen q - 1) = d + 1" by (simp add: d_def)
    finally show ?thesis .
  qed
  have e: "float_exponent x = (if 2 powi d \<le> \<bar>x\<bar> then d else d - 1)"
    by (simp add: float_exponent_def pq d_def)
  show "2 powi float_exponent x \<le> \<bar>x\<bar>" using lo by (simp add: e)
  show "\<bar>x\<bar> < 2 powi (float_exponent x + 1)" using hi by (simp add: e)
qed

lemma round_double_error: "\<bar>round_double x - x\<bar> \<le> \<bar>x\<bar> / 2 ^ 53"
proof (cases "x = 0")
  case True
  then show ?thesis by (simp add: round_double_def)
next
  case False
  define e where "e = float_exponent x"
  define s :: rat where "s = 2 powi (52 - e)"
  have s: "0 < s" by (simp add: s_def)
  have inv: "(2::rat) powi (e - 52) = 1 / s" by (simp add: s_def power_int_diff)
  have rd: "round_double x = of_int (round_half_even (x * s)) / s"
    using False by (simp add: round_double_def Let_def e_def [symmetric] s_def [symmetric] inv)
  have "\<bar>round_double x - x\<bar> = \<bar>of_int (round_half_even (x * s)) - x * s\<bar> / s"
    using s by (simp add: rd field_simps abs_if)
  also have "\<dots> \<le> (1 / 2) / s"
    using round_half_even_error [of "x * s"] s by (intro divide_right_mono) simp_all
  also have "\<dots> = 2 powi e / 2 ^ 53"
    by (simp add: s_def power_int_diff)
  also have "\<dots> \<le> \<bar>x\<bar> / 2 ^ 53"
    using float_exponent_bounds(1) [OF False] by (simp add: e_def divide_right_mono)
  finally show ?thesis .
qed

lemma double_error_twice:
  fixes t q p :: rat
  assumes a: "\<bar>q - t\<bar> \<le> \<bar>t\<bar> / 2 ^ 53" and b: "\<bar>p - q * 100\<bar> \<le> \<bar>q * 100\<bar> / 2 ^ 53"
  shows "\<bar>p - 100 * t\<bar> \<le> \<bar>100 * t\<bar> / 2 ^ 51"
proof -
  have q: "\<bar>q\<bar> \<le> \<bar>t\<bar> + \<bar>t\<bar> / 2 ^ 53" using a by linarith
  have "\<bar>t\<bar> / 2 ^ 53 \<le> \<bar>t\<bar>" by (simp add: field_simps)
  then have q2: "\<bar>q\<bar> \<le> 2 * \<bar>t\<bar>" using q by linarith
  have "\<bar>q * 100\<bar> / 2 ^ 53 = 100 * \<bar>q\<bar> / 2 ^ 53" by (simp add: abs_mult)
  also have "\<dots> \<le> 100 * (2 * \<bar>t\<bar>) / 2 ^ 53" using q2 by (simp add: divide_right_mono)
  finally have b2: "\<bar>p - q * 100\<bar> \<le> 200 * \<bar>t\<bar> / 2 ^ 53" using b by simp
  have "\<bar>p - 100 * t\<bar> \<le> \<bar>p - q * 100\<bar> + 100 * \<bar>q - t\<bar>" by (simp add: abs_if split: if_splits)
  also have "\<dots> \<le> 200 * \<bar>t\<bar> / 2 ^ 53 + 100 * (\<bar>t\<bar> / 2 ^ 53)" using a b2 by (intro add_mono mult_left_mono) simp_all
  also have "\<dots> \<le> \<bar>100 * t\<bar> / 2 ^ 51" by (simp add: abs_mult field_simps)
  finally show ?thesis .
qed

lemma real_of_rat_abs: "real_of_rat \<bar>x\<bar> = \<bar>real_of_rat x\<bar>"
  by (simp add: abs_if of_rat_minus)
lemma round_double_one: "round_double 1 = 1"
  by code_simp

lemma round_double_hundred: "round_double 100 = 100"
  by code_simp

lemma verification_rate_error:
  assumes "total_citations r \<noteq> 0"
  shows "\<bar>verification_rate r
           - 100 * real_of_int (verified_count r) / real_of_int (total_citations r)\<bar>
         \<le> \<bar>100 * real_of_int (verified_count r) / real_of_int (total_citations r)\<bar> / 2 ^ 51"
proof -
  define t :: rat where "t = of_int (verified_count r) / of_int (total_citations r)"
  define q where "q = round_double t"
  define p where "p = round_double (q * 100)"
  have "\<bar>p - 100 * t\<bar> \<le> \<bar>100 * t\<bar> / 2 ^ 51"
    using round_double_error [of t] round_double_error [of "q * 100"]
    by (intro double_error_twice [of q t p]) (simp_all add: q_def p_def)
  then have "real_of_rat \<bar>p - 100 * t\<bar> \<le> real_of_rat (\<bar>100 * t\<bar> / 2 ^ 51)"
    by (simp only: of_rat_less_eq)
  moreover have "real_of_rat t = real_of_int (verified_count r) / real_of_int (total_citations r)"
    by (simp add: t_def of_rat_divide)
  moreover have "verification_rate r = real_of_rat p"
    using assms by (simp add: verification_rate_def p_def q_def t_def float_mul_def int_truediv_def)
  ultimately show ?thesis
    by (simp only: real_of_rat_abs of_rat_diff of_rat_mult of_rat_divide of_rat_power
          of_rat_numeral_eq times_divide_eq_right)
qed

lemma verification_rate_all:
  "total_citations r \<noteq> 0 \<Longrightarrow> verified_count r = total_citations r \<Longrightarrow> verification_rate r = 100"
  by (simp add: verification_rate_def float_mul_def int_truediv_def round_double_one
        round_double_hundred)

lemma verification_rate_none:
  "total_citations r \<noteq> 0 \<Longrightarrow> verified_count r = 0 \<Longrightarrow> verification_rate r = 0"
  by (simp add: verification_rate_def float_mul_def int_truediv_def round_double_def)

text \<open>
  C6, as the claim states it, fails: the rate is the float \<^verbatim>\<open>(M / N) * 100\<close>, rounded
  twice, and not \<open>100 * M / N\<close>. With one citation of three verified, the rate is the
  double \<open>33.33333333333333\<close>, which is \<open>4691249611844266 / 2 ^ 47\<close>. It is neither the
  number \<open>100 * 1 / 3\<close> nor the double that \<^verbatim>\<open>100 * 1 / 3\<close> evaluates to,
  \<open>33.333333333333336\<close>, which is \<open>4691249611844267 / 2 ^ 47\<close>.
\<close>

theorem verification_rate_one_of_three:
  "total_citations (report0 3 1) = 3 \<and> verified_count (report0 3 1) = 1 \<and>
   verification_rate (report0 3 1) = 4691249611844266 / 2 ^ 47 \<and>
   real_of_rat (int_truediv (100 * 1) 3) = 4691249611844267 / 2 ^ 47 \<and>
   verification_rate (report0 3 1) \<noteq> 100 * 1 / 3"
  by code_simp

text \<open>
  C6. The verification rate of a report with no citations is exactly 100. That of a
  report with \<open>N \<noteq> 0\<close> citations, \<open>M\<close> of them verified, both counts below \<open>2 ^ 1000\<close> in
  magnitude, is the double that \<^verbatim>\<open>(M / N) * 100\<close> evaluates to: the quotient rounded to a
  double, then its product with 100 rounded to a double. It is within a relative error
  of \<open>2 ^ -51\<close> of the number \<open>100 * M / N\<close>, and it is that number when \<open>M = N\<close> and when
  \<open>M = 0\<close>.
\<close>

theorem verification_rate_rounded:
  "(total_citations r = 0 \<longrightarrow> verification_rate r = 100) \<and>
   (total_citations r \<noteq> 0 \<and> \<bar>total_citations r\<bar> < 2 ^ 1000 \<and> \<bar>verified_count r\<bar> < 2 ^ 1000 \<longrightarrow>
      verification_rate r
        = real_of_rat (float_mul (int_truediv (verified_count r) (total_citations r)) 100) \<and>
      \<bar>verification_rate r
         - 100 * real_of_int (verified_count r) / real_of_int (total_citations r)\<bar>
        \<le> \<bar>100 * real_of_int (verified_count r) / real_of_int (total_citations r)\<bar> / 2 ^ 51 \<and>
      (verified_count r = total_citations r \<longrightarrow> verification_rate r = 100) \<and>
      (verified_count r = 0 \<longrightarrow> verification_rate r = 0))"
proof (intro conjI impI)
  assume "total_citations r = 0"
  then show "verification_rate r = 100" by (simp add: verification_rate_def)
next
  assume a: "total_citations r \<noteq> 0 \<and> \<bar>total_citations r\<bar> < 2 ^ 1000 \<and> \<bar>verified_count r\<bar> < 2 ^ 1000"
  then show "verification_rate r
        = real_of_rat (float_mul (int_truediv (verified_count r) (total_citations r)) 100)"
    by (simp add: verification_rate_def)
  show "\<bar>verification_rate r
         - 100 * real_of_int (verified_count r) / real_of_int (total_citations r)\<bar>
        \<le> \<bar>100 * real_of_int (verified_count r) / real_of_int (total_citations r)\<bar> / 2 ^ 51"
    using a by (intro verification_rate_error) simp
  show "verification_rate r = 100" if "verified_count r = total_citations r"
    using a that by (intro verification_rate_all) simp_all
  show "verification_rate r = 0" if "verified_count r = 0"
    using a that by (intro verification_rate_none) simp_all
qed

theorem verification_rate_rounded_witness:
  "verification_rate (report0 0 0) = 100 \<and> verification_rate (report0 10 8) = 80 \<and>
   verification_rate (report0 7 7) = 100 \<and> verification_rate (report0 5 0) = 0 \<and>
   \<bar>verification_rate (report0 3 1) - 100 * 1 / 3\<bar> \<le> \<bar>100 * 1 / 3\<bar> / 2 ^ 51"
proof -
  have in_range: "total_citations (report0 n m) \<noteq> 0 \<and> \<bar>total_citations (report0 n m)\<bar> < 2 ^ 1000
      \<and> \<bar>verified_count (report0 n m)\<bar> < 2 ^ 1000"
    if "n \<noteq> 0" "\<bar>n\<bar> < 10" "\<bar>m\<bar> < 10" for n m
  proof -
    have "(10::int) < 2 ^ 1000" by simp
    then show ?thesis using that by (simp add: report0_def)
  qed
  have counts: "total_citations (report0 n m) = n" "verified_count (report0 n m) = m" for n m
    by (simp_all add: report0_def)
  have a: "verification_rate (report0 10 8) = 80" by code_simp
  have b: "verification_rate (report0 0 0) = 100"
    using verification_rate_rounded [of "report0 0 0"] counts [of 0 0] by blast
  have r7: "total_citations (report0 7 7) \<noteq> 0 \<and> \<bar>total_citations (report0 7 7)\<bar> < 2 ^ 1000
      \<and> \<bar>verified_count (report0 7 7)\<bar> < 2 ^ 1000"
    by (rule in_range) simp_all
  have v7: "verified_count (report0 7 7) = total_citations (report0 7 7)"
    by (simp add: counts)
  have c: "verification_rate (report0 7 7) = 100"
    using verification_rate_rounded [of "report0 7 7"] r7 v7 by blast
  have r5: "total_citations (report0 5 0) \<noteq> 0 \<and> \<bar>total_citations (report0 5 0)\<bar> < 2 ^ 1000
      \<and> \<bar>verified_count (report0 5 0)\<bar> < 2 ^ 1000"
    by (rule in_range) simp_all
  have d: "verification_rate (report0 5 0) = 0"
    using verification_rate_rounded [of "report0 5 0"] r5 counts(2) [of 5 0] by blast
  have r3: "total_citations (report0 3 1) \<noteq> 0 \<and> \<bar>total_citations (report0 3 1)\<bar> < 2 ^ 1000
      \<and> \<bar>verified_count (report0 3 1)\<bar> < 2 ^ 1000"
    by (rule in_range) simp_all
  have "\<bar>verification_rate (report0 3 1)
          - 100 * real_of_int (verified_count (report0 3 1))
              / real_of_int (total_citations (report0 3 1))\<bar>
        \<le> \<bar>100 * real_of_int (verified_count (report0 3 1))
              / real_of_int (total_citations (report0 3 1))\<bar> / 2 ^ 51"
    using verification_rate_rounded [of "report0 3 1"] r3 by blast
  then have e: "\<bar>verification_rate (report0 3 1) - 100 * 1 / 3\<bar> \<le> \<bar>100 * 1 / 3\<bar> / 2 ^ 51"
    by (simp only: counts of_int_1 of_int_numeral)
  from b a c d e show ?thesis by (intro conjI)
qed

section \<open>The verdict of the consensus generator\<close>

text \<open>
  C7. With a voting result at hand, the verdict is derived in this order: a failed vote
  gives REJECTED whatever the status of the debate; otherwise CONSENSUS\_REACHED gives
  VALIDATED from a final score of 85 and PARTIALLY VALIDATED below it; otherwise CONVERGED
  gives PARTIALLY VALIDATED from a final score of 75 and NEEDS REVISION below it; DEADLOCK
  gives INCONCLUSIVE; every other status gives PARTIALLY VALIDATED.
\<close>

theorem determine_verdict_precedence:
  "determine_verdict dr (Some vr) =
     (if \<not> passed vr then ''REJECTED''
      else case debate_status dr of
             CONSENSUS_REACHED \<Rightarrow>
               if 85 \<le> final_score dr then ''VALIDATED'' else ''PARTIALLY VALIDATED''
           | CONVERGED \<Rightarrow>
               if 75 \<le> final_score dr then ''PARTIALLY VALIDATED'' else ''NEEDS REVISION''
           | DEADLOCK \<Rightarrow> ''INCONCLUSIVE''
           | _ \<Rightarrow> ''PARTIALLY VALIDATED'')"
  by (cases "debate_status dr") (simp_all add: determine_verdict_def)

theorem determine_verdict_precedence_witness:
  "determine_verdict (debate0 CONSENSUS_REACHED 90) (Some (voting0 False 90)) = ''REJECTED'' \<and>
   determine_verdict (debate0 CONSENSUS_REACHED 90) (Some (voting0 True 90)) = ''VALIDATED'' \<and>
   determine_verdict (debate0 CONVERGED 70) (Some (voting0 True 70)) = ''NEEDS REVISION'' \<and>
   determine_verdict (debate0 MAX_ROUNDS_REACHED 10) (Some (voting0 True 10)) = ''PARTIALLY VALIDATED''"
  using determine_verdict_precedence [of "debate0 CONSENSUS_REACHED 90" "voting0 False 90"]
    determine_verdict_precedence [of "debate0 CONSENSUS_REACHED 90" "voting0 True 90"]
    determine_verdict_precedence [of "debate0 CONVERGED 70" "voting0 True 70"]
    determine_verdict_precedence [of "debate0 MAX_ROUNDS_REACHED 10" "voting0 True 10"]
  by (simp add: debate0_def voting0_def)

section \<open>Bounds of the scores\<close>

lemma clamp_unit: "0 \<le> min 1.0 (max 0.0 (x::real)) \<and> min 1.0 (max 0.0 x) \<le> 1"
  by simp

lemma clamp_hundred: "0 \<le> min 100.0 (max 0.0 (x::real)) \<and> min 100.0 (max 0.0 x) \<le> 100"
  by simp

lemma score_accuracy_bounds: "0 \<le> score_accuracy rep r \<and> score_accuracy rep r \<le> 1"
  unfolding score_accuracy_def Let_def by (rule clamp_unit)

lemma score_evidence_bounds: "0 \<le> score_evidence p rep \<and> score_evidence p rep \<le> 1"
  unfolding score_evidence_def Let_def by (rule clamp_unit)

lemma score_logic_bounds: "0 \<le> score_logic p r \<and> score_logic p r \<le> 1"
  unfolding score_logic_def Let_def by (rule clamp_unit)

lemma score_methodology_bounds: "0 \<le> score_methodology p \<and> score_methodology p \<le> 1"
  unfolding score_methodology_def Let_def by (rule clamp_unit)

lemma score_clarity_bounds: "0 \<le> score_clarity p \<and> score_clarity p \<le> 1"
  unfolding score_clarity_def Let_def by (rule clamp_unit)

lemma analyze_criterion_bounds: "0 \<le> analyze_criterion c pos \<and> analyze_criterion c pos \<le> 100"
  unfolding analyze_criterion_def Let_def by (rule clamp_hundred)

lemma score_round_bounds:
  "0 \<le> accuracy (score_round p r rep) \<and> accuracy (score_round p r rep) \<le> 1 \<and>
   0 \<le> evidence (score_round p r rep) \<and> evidence (score_round p r rep) \<le> 1 \<and>
   0 \<le> logic (score_round p r rep) \<and> logic (score_round p r rep) \<le> 1 \<and>
   0 \<le> methodology (score_round p r rep) \<and> methodology (score_round p r rep) \<le> 1 \<and>
   0 \<le> clarity (score_round p r rep) \<and> clarity (score_round p r rep) \<le> 1"
  using score_accuracy_bounds [of rep r] score_evidence_bounds [of p rep] score_logic_bounds [of p r]
    score_methodology_bounds [of p] score_clarity_bounds [of p]
  by (simp add: score_round_def)

lemma vote_bounds:
  "list_all (\<lambda>(c, x). 0 \<le> x \<and> x \<le> 100) (criterion_scores (vote eng pos)) \<and>
   list_all (\<lambda>v. 0 \<le> score v \<and> score v \<le> 100) (criterion_votes (vote eng pos))"
  by (simp add: vote_def Let_def vote_criterion_def CRITERIA_def analyze_criterion_bounds)

text \<open>
  C8. For every pair of round texts and every optional moat report, each of the five
  sub-scores of the round score lies between 0 and 1; and for every position text and
  every voting engine, each score in the dictionary of criterion scores, and the score of
  each criterion vote, lies between 0 and 100.
\<close>

theorem score_and_vote_bounds:
  "(0 \<le> accuracy (score_round p r rep) \<and> accuracy (score_round p r rep) \<le> 1 \<and>
    0 \<le> evidence (score_round p r rep) \<and> evidence (score_round p r rep) \<le> 1 \<and>
    0 \<le> logic (score_round p r rep) \<and> logic (score_round p r rep) \<le> 1 \<and>
    0 \<le> methodology (score_round p r rep) \<and> methodology (score_round p r rep) \<le> 1 \<and>
    0 \<le> clarity (score_round p r rep) \<and> clarity (score_round p r rep) \<le> 1) \<and>
   (\<forall>(c, x) \<in> set (criterion_scores (vote eng pos)). 0 \<le> x \<and> x \<le> 100) \<and>
   (\<forall>v \<in> set (criterion_votes (vote eng pos)). 0 \<le> score v \<and> score v \<le> 100)"
  using score_round_bounds [of p r rep] vote_bounds [of eng pos]
  by (simp add: list_all_iff)

theorem score_and_vote_bounds_witness:
  "score_round ''Thus the study shows it. First'' ''This is Incorrect, a fallacy''
       (Some (report0 4 1))
     = \<lparr>accuracy = 7 / 40, evidence = 21 / 40, logic = 1 / 2, methodology = 3 / 5,
        clarity = 13 / 20\<rparr> \<and>
   criterion_scores (vote engine0 ''Thus [Verified] doi:10.1/x http'')
     = [(''accuracy'', 80), (''evidence'', 70), (''logic'', 65), (''methodology'', 60),
        (''clarity'', 60)] \<and>
   0 \<le> accuracy (score_round ''Thus the study shows it. First''
          ''This is Incorrect, a fallacy'' (Some (report0 4 1)))"
proof -
  have a: "score_round ''Thus the study shows it. First'' ''This is Incorrect, a fallacy''
       (Some (report0 4 1))
     = \<lparr>accuracy = 7 / 40, evidence = 21 / 40, logic = 1 / 2, methodology = 3 / 5,
        clarity = 13 / 20\<rparr>"
    by code_simp
  have b: "criterion_scores (vote engine0 ''Thus [Verified] doi:10.1/x http'')
     = [(''accuracy'', 80), (''evidence'', 70), (''logic'', 65), (''methodology'', 60),
        (''clarity'', 60)]"
    by code_simp
  show ?thesis
    using a b score_and_vote_bounds [of "''Thus the study shows it. First''"
        "''This is Incorrect, a fallacy''" "Some (report0 4 1)" engine0
        "''Thus [Verified] doi:10.1/x http''"]
    by simp
qed

section \<open>Failing agents in the moat\<close>

text \<open>
  C2, as the claim states it, fails: when the call of an agent raises, the verdict of
  that agent is not false but the verdict of the web validator. The two agents of
  \<open>failing_moat\<close> raise on every call, and the citation that the validator verifies is
  kept with both verdicts true.
\<close>

theorem agent_failure_not_unverified:
  "\<not> (\<forall>v \<in> set (verifications (fst (verify_text failing_moat ''see https://doi.org/10.1234/x'' 0))).
        \<not> agent_a_verified v \<and> \<not> agent_b_verified v)"
proof -
  have "map (\<lambda>v. (agent_a_verified v, agent_b_verified v, decision v))
       (verifications (fst (verify_text failing_moat ''see https://doi.org/10.1234/x'' 0)))
     = [(True, True, KEEP)]"
    by code_simp
  then show ?thesis by auto
qed

text \<open>
  C2, amended. An exception raised by the call of an agent inside \<open>agent_verify\<close> is
  caught there: the verdict of that agent is then whether the web status is verified
  (false for every other web status), and the call returns as usual. No exception leaves
  the moat, and the verification goes on: every citation handed to \<open>verify_citations\<close>
  gets its verification, in order, whatever the agents do.
\<close>

theorem agent_failure_falls_back:
  "(agent (raw_text c) (to_search_query c) w = (Inl e, w') \<longrightarrow>
      agent_verify agent c web w = (status web = VERIFIED, w')) \<and>
   map original_citation (fst (verify_citations eng cs w0)) = cs"
  by (simp add: agent_verify_def verify_citations_original)

theorem agent_failure_falls_back_witness:
  "agent_verify failing_agent citation0 (web0 VERIFIED) 0 = (True, 1) \<and>
   agent_verify failing_agent citation0 (web0 NOT_FOUND) 0 = (False, 1) \<and>
   map original_citation (fst (verify_citations failing_moat [citation0, citation0] 0))
     = [citation0, citation0]"
  using agent_failure_falls_back [of failing_agent citation0 0 "PyException ''backend unavailable''"
      1 "web0 VERIFIED" failing_moat "[citation0, citation0]" 0]
    agent_failure_falls_back [of failing_agent citation0 0 "PyException ''backend unavailable''"
      1 "web0 NOT_FOUND" failing_moat "[citation0, citation0]" 0]
  by (simp add: failing_agent_def web0_def)

section \<open>The counts of a moat report\<close>

text \<open>
  C9. For every text, every engine and every state of the outside world, the report of
  \<open>verify_text\<close> has its four counts add up to the total number of citations, which is
  the length of its list of verifications and the number of citations extracted from the
  text.
\<close>

theorem moat_report_counts:
  "verified_count (fst (verify_text eng text w)) + modified_count (fst (verify_text eng text w))
     + deleted_count (fst (verify_text eng text w)) + flagged_count (fst (verify_text eng text w))
     = total_citations (fst (verify_text eng text w)) \<and>
   total_citations (fst (verify_text eng text w))
     = int (length (verifications (fst (verify_text eng text w)))) \<and>
   length (verifications (fst (verify_text eng text w))) = length (extract_all text)"
proof (cases "extract_all text = []")
  case True
  then show ?thesis by (simp add: verify_text_def Let_def)
next
  case False
  obtain vs w1 where vs: "verify_citations eng (extract_all text) w = (vs, w1)"
    by (cases "verify_citations eng (extract_all text) w")
  have len: "length vs = length (extract_all text)"
    using verify_citations_length [of eng "extract_all text" w] vs by simp
  show ?thesis
    using count_loop_sum [of "\<lparr>total_citations = int (length (extract_all text)), verified_count = 0,
                     modified_count = 0, deleted_count = 0, flagged_count = 0,
                     verifications = vs, clean_text = []\<rparr>" vs] len
    by (simp add: verify_text_report [OF False vs])
qed

theorem moat_report_counts_witness:
  "(let r = fst (verify_text failing_moat ''see https://doi.org/10.1234/x, [7]'' 0)
    in (total_citations r, verified_count r, modified_count r, deleted_count r, flagged_count r))
     = (2, 1, 0, 1, 0) \<and>
   length (extract_all ''see https://doi.org/10.1234/x, [7]'') = 2"
proof -
  have "(let r = fst (verify_text failing_moat ''see https://doi.org/10.1234/x, [7]'' 0)
    in (total_citations r, verified_count r, modified_count r, deleted_count r, flagged_count r))
     = (2, 1, 0, 1, 0)"
    by code_simp
  then show ?thesis
    using moat_report_counts [of failing_moat "''see https://doi.org/10.1234/x, [7]''" 0]
    by (simp add: Let_def)
qed

section \<open>Overlapping citations\<close>

text \<open>
  A match of a pattern consumes at least the least length of the pattern, so every match
  of the extractor's patterns is a span that is not empty and lies inside the text.
\<close>

lemma rmatch_consumes:
  "rmatch r s k = Some res \<Longrightarrow>
   \<exists>s'. k s' = Some res \<and> length (fst (snd s')) + min_len r \<le> length (fst (snd s))"
proof (induction r s k arbitrary: res rule: rmatch.induct)
  case (1 s k)
  then show ?case by (intro exI [of _ s]) simp
next
  case (2 c p rest g k)
  then show ?case by (auto split: list.splits if_splits)
next
  case (3 cs p rest g k)
  then show ?case by (auto split: list.splits if_splits)
next
  case (4 cs p rest g k)
  then show ?case by (auto split: list.splits if_splits)
next
  case (5 a b s k)
  from "5.prems" have "rmatch a s (\<lambda>s'. rmatch b s' k) = Some res" by simp
  from "5.IH"(2) [OF this] obtain s1 where
    s1: "rmatch b s1 k = Some res" "length (fst (snd s1)) + min_len a \<le> length (fst (snd s))"
    by blast
  from "5.IH"(1) [OF s1(1)] obtain s2 where
    s2: "k s2 = Some res" "length (fst (snd s2)) + min_len b \<le> length (fst (snd s1))"
    by blast
  show ?case using s1(2) s2 by (intro exI [of _ s2]) simp
next
  case (6 a b s k)
  show ?case
  proof (cases "rmatch a s k")
    case None
    then have "rmatch b s k = Some res" using "6.prems" by simp
    from "6.IH"(2) [OF None this] obtain s' where
      "k s' = Some res" "length (fst (snd s')) + min_len b \<le> length (fst (snd s))"
      by blast
    then show ?thesis by (intro exI [of _ s']) (simp add: min_def)
  next
    case (Some x)
    then have "rmatch a s k = Some res" using "6.prems" by simp
    from "6.IH"(1) [OF this] obtain s' where
      "k s' = Some res" "length (fst (snd s')) + min_len a \<le> length (fst (snd s))"
      by blast
    then show ?thesis by (intro exI [of _ s']) (simp add: min_def)
  qed
next
  case (7 lo hi r p rest g k)
  let ?k' = "\<lambda>(p', rest', g').
                     if length rest' < length rest
                     then rmatch (Rep (lo - 1) (map_option (\<lambda>h. h - 1) hi) r) (p', rest', g') k
                     else None"
  show ?case
  proof (cases "hi = Some 0")
    case True
    then show ?thesis using "7.prems" by (auto split: if_splits)
  next
    case False
    show ?thesis
    proof (cases "rmatch r (p, rest, g) ?k'")
      case None
      then show ?thesis using "7.prems" False by (auto split: if_splits)
    next
      case (Some x)
      then have eq: "rmatch r (p, rest, g) ?k' = Some res" using "7.prems" False by simp
      from "7.IH"(2) [OF False eq] obtain s1 where
        s1: "?k' s1 = Some res" "length (fst (snd s1)) + min_len r \<le> length rest"
        by auto
      obtain p1 rest1 g1 where s1_def: "s1 = (p1, rest1, g1)" by (cases s1) auto
      from s1(1) have lt: "length rest1 < length rest"
        and rec: "rmatch (Rep (lo - 1) (map_option (\<lambda>h. h - 1) hi) r) (p1, rest1, g1) k = Some res"
        by (auto simp: s1_def split: if_splits)
      from "7.IH"(1) [OF False lt rec] obtain s2 where
        s2: "k s2 = Some res" "length (fst (snd s2)) + (lo - 1) * min_len r \<le> length rest1"
        by auto
      have "length (fst (snd s2)) + lo * min_len r \<le> length rest"
      proof (cases lo)
        case 0
        then show ?thesis using s2(2) lt by simp
      next
        case (Suc n)
        then show ?thesis using s2(2) s1(2) by (simp add: s1_def)
      qed
      then show ?thesis using s2(1) by (intro exI [of _ s2]) simp
    qed
  qed
next
  case (8 n r p rest g k)
  from "8.prems" have "rmatch r (p, rest, g) (\<lambda>(p', rest', g'). k (p', rest', (n, rest, rest') # g')) = Some res"
    by simp
  from "8.IH" [OF this] obtain s1 where
    s1: "(\<lambda>(p', rest', g'). k (p', rest', (n, rest, rest') # g')) s1 = Some res"
        "length (fst (snd s1)) + min_len r \<le> length rest"
    by auto
  obtain p1 rest1 g1 where s1_def: "s1 = (p1, rest1, g1)" by (cases s1) auto
  show ?case using s1 by (intro exI [of _ "(p1, rest1, (n, rest, rest1) # g1)"]) (simp add: s1_def)
next
  case (9 p rest g k)
  then show ?case by (auto split: if_splits)
qed

lemma match_at_span:
  assumes "match_at r start p rest = Some (m, p', rest')"
  shows "length rest' + min_len r \<le> length rest \<and> m_start m = start \<and>
         m_end m = start + (length rest - length rest')"
proof -
  from assms obtain g where g: "rmatch r (p, rest, []) Some = Some (p', rest', g)"
    and m: "m_start m = start" "m_end m = start + (length rest - length rest')"
    by (auto simp: match_at_def split: option.splits prod.splits)
  from rmatch_consumes [OF g] have "length rest' + min_len r \<le> length rest" by auto
  then show ?thesis using m by simp
qed

lemma finditer_from_spans:
  "m \<in> set (finditer_from r start p rest) \<Longrightarrow> 0 < min_len r \<Longrightarrow>
   start \<le> m_start m \<and> m_start m < m_end m \<and> m_end m \<le> start + length rest"
proof (induction r start p rest rule: finditer_from.induct)
  case (1 r start p rest)
  have step: "finditer_from r start p rest =
     (case match_at r start p rest of
        Some (m, p', rest') \<Rightarrow>
          if length rest' < length rest
          then m # finditer_from r (m_end m) p' rest'
          else (case rest of [] \<Rightarrow> [m] | x # xs \<Rightarrow> m # finditer_from r (start + 1) (Some x) xs)
      | None \<Rightarrow>
          (case rest of [] \<Rightarrow> [] | x # xs \<Rightarrow> finditer_from r (start + 1) (Some x) xs))"
    by (rule finditer_from.simps)
  show ?case
  proof (cases "match_at r start p rest")
    case None
    show ?thesis
    proof (cases rest)
      case Nil
      then show ?thesis using "1.prems"(1) None step by simp
    next
      case (Cons x xs)
      then have "m \<in> set (finditer_from r (start + 1) (Some x) xs)"
        using "1.prems"(1) None step by simp
      from "1.IH"(1) [OF None Cons this "1.prems"(2)] show ?thesis using Cons by simp
    qed
  next
    case (Some a)
    obtain m0 p' rest' where a: "a = (m0, p', rest')" by (cases a) auto
    have sp: "length rest' + min_len r \<le> length rest" "m_start m0 = start"
      "m_end m0 = start + (length rest - length rest')"
      using match_at_span [of r start p rest m0 p' rest'] Some a by auto
    then have lt: "length rest' < length rest" using "1.prems"(2) by simp
    have "m = m0 \<or> m \<in> set (finditer_from r (m_end m0) p' rest')"
      using "1.prems"(1) Some a lt step by simp
    then show ?thesis
    proof
      assume mm: "m = m0"
      have "m_start m0 < m_end m0" using sp lt by arith
      moreover have "m_end m0 \<le> start + length rest" using sp lt by arith
      ultimately show ?thesis using mm sp(2) by simp
    next
      assume "m \<in> set (finditer_from r (m_end m0) p' rest')"
      from "1.IH"(2) [OF Some a [symmetric] refl lt this "1.prems"(2)]
      have ih: "m_end m0 \<le> m_start m" "m_start m < m_end m" "m_end m \<le> m_end m0 + length rest'"
        by simp_all
      have "start \<le> m_start m" using ih(1) sp lt by arith
      moreover have "m_end m \<le> start + length rest" using ih(3) sp lt by arith
      ultimately show ?thesis using ih(2) by simp
    qed
  qed
qed

lemma create_citation_position:
  "position (create_citation m t) = (m_start m, m_end m)"
  by (cases t) (simp_all add: create_citation_def Let_def split: option.splits)

lemma patterns_min_len:
  "(t, ps) \<in> set PATTERNS \<Longrightarrow> p \<in> set ps \<Longrightarrow> 0 < min_len p"
  by (auto simp: PATTERNS_def rx_author_def rx_year_def rx_lit_def rx_plus_def rx_star_def
      rx_opt_def rx_s_def rx_d_def not_space_bracket_def)

lemma scan_all_spans:
  assumes "c \<in> set (scan_all text)"
  shows "fst (position c) < snd (position c) \<and> snd (position c) \<le> length text"
proof -
  from assms obtain t ps p m where
    tp: "(t, ps) \<in> set PATTERNS" "p \<in> set ps" and m: "m \<in> set (finditer p text)"
    and c: "c = create_citation m t"
    by (auto simp: scan_all_def)
  have "0 < min_len p" using patterns_min_len [OF tp] .
  from finditer_from_spans [OF m [unfolded finditer_def] this]
  show ?thesis by (simp add: c create_citation_position)
qed

lemma disjoint_spans_snoc:
  assumes "res \<noteq> []" "disjoint_spans res" "span_start (last res) \<le> span_start c"
    and "x \<in> set (butlast res)"
  shows "span_end x \<le> span_start c"
proof -
  have "res = butlast res @ [last res]" using assms(1) by simp
  then have "sorted_wrt (\<lambda>a b. span_end a \<le> span_start b) (butlast res @ [last res])"
    using assms(2) by (simp add: disjoint_spans_def)
  then have "span_end x \<le> span_start (last res)"
    using assms(4) by (simp add: sorted_wrt_append)
  then show ?thesis using assms(3) by simp
qed

lemma dedup_loop_disjoint:
  "res \<noteq> [] \<Longrightarrow> disjoint_spans res \<Longrightarrow> sorted (map span_start (last res # cs)) \<Longrightarrow>
   disjoint_spans (dedup_loop res cs) \<and> dedup_loop res cs \<noteq> []"
proof (induction cs arbitrary: res)
  case Nil
  then show ?case by simp
next
  case (Cons c cs)
  have le: "span_start (last res) \<le> span_start c" and srt: "sorted (map span_start (c # cs))"
    using Cons.prems(3) by auto
  have bl: "\<And>x. x \<in> set (butlast res) \<Longrightarrow> span_end x \<le> span_start c"
    using disjoint_spans_snoc [OF Cons.prems(1,2) le] .
  have dbl: "disjoint_spans (butlast res)"
    using Cons.prems(2) by (metis Cons.prems(1) append_butlast_last_id disjoint_spans_def sorted_wrt_append)
  have rest_sorted: "sorted (map span_start (last res # cs))"
    using Cons.prems(3) by auto
  show ?case
  proof (cases "span_start c \<ge> span_end (last res)")
    case True
    have "\<And>x. x \<in> set res \<Longrightarrow> span_end x \<le> span_start c"
      using bl True Cons.prems(1) by (metis append_butlast_last_id butlast.simps(2) in_set_butlast_appendI last_in_set set_ConsD list.set_intros(1) rotate1.simps(2) set_rotate1)
    then have d: "disjoint_spans (res @ [c])"
      using Cons.prems(2) by (simp add: disjoint_spans_def sorted_wrt_append)
    have "disjoint_spans (dedup_loop (res @ [c]) cs) \<and> dedup_loop (res @ [c]) cs \<noteq> []"
      using Cons.IH [of "res @ [c]"] d srt by simp
    then show ?thesis using True by (simp add: Let_def)
  next
    case False
    show ?thesis
    proof (cases "span_end c > span_end (last res) \<and> priority c > priority (last res)")
      case True
      have d: "disjoint_spans (butlast res @ [c])"
        using dbl bl by (simp add: disjoint_spans_def sorted_wrt_append)
      have "disjoint_spans (dedup_loop (butlast res @ [c]) cs) \<and> dedup_loop (butlast res @ [c]) cs \<noteq> []"
        using Cons.IH [of "butlast res @ [c]"] d srt by simp
      then show ?thesis using True False by (simp add: Let_def)
    next
      case no: False
      have "disjoint_spans (dedup_loop res cs) \<and> dedup_loop res cs \<noteq> []"
        using Cons.IH [OF Cons.prems(1,2) rest_sorted] .
      then show ?thesis using no False by (auto simp: Let_def)
    qed
  qed
qed

lemma dedup_loop_subset: "set (dedup_loop res cs) \<subseteq> set res \<union> set cs"
proof (induction cs arbitrary: res)
  case Nil
  then show ?case by simp
next
  case (Cons c cs)
  have a: "set (dedup_loop (res @ [c]) cs) \<subseteq> set res \<union> set (c # cs)"
    using Cons.IH [of "res @ [c]"] by auto
  have b: "set (dedup_loop (butlast res @ [c]) cs) \<subseteq> set res \<union> set (c # cs)"
    using Cons.IH [of "butlast res @ [c]"] by (auto dest: in_set_butlastD)
  have c: "set (dedup_loop res cs) \<subseteq> set res \<union> set (c # cs)"
    using Cons.IH [of res] by auto
  show ?case using a b c by (simp add: Let_def)
qed

lemma deduplicate_disjoint: "disjoint_spans (deduplicate cs)"
proof (cases "sort_key span_start cs")
  case Nil
  then show ?thesis by (simp add: deduplicate_def disjoint_spans_def)
next
  case (Cons c cs')
  have "sorted (map span_start (sort_key span_start cs))" by simp
  then have "sorted (map span_start (last [c] # cs'))" using Cons by simp
  then show ?thesis
    using dedup_loop_disjoint [of "[c]" cs'] Cons by (simp add: deduplicate_def disjoint_spans_def)
qed

lemma deduplicate_subset: "set (deduplicate cs) \<subseteq> set cs"
proof (cases "sort_key span_start cs")
  case Nil
  then show ?thesis by (simp add: deduplicate_def)
next
  case (Cons c cs')
  have "set (c # cs') = set cs" using Cons by (metis set_sort)
  then show ?thesis using dedup_loop_subset [of "[c]" cs'] Cons by (auto simp: deduplicate_def)
qed

lemma extract_all_eq: "extract_all text = deduplicate (scan_all text)"
proof -
  have "sorted_wrt (\<lambda>a b. span_start a \<le> span_start b) (deduplicate (scan_all text))"
  proof (rule sorted_wrt_mono_rel [OF _ deduplicate_disjoint [unfolded disjoint_spans_def]])
    fix x y
    assume "x \<in> set (deduplicate (scan_all text))" "span_end x \<le> span_start y"
    then show "span_start x \<le> span_start y"
      using scan_all_spans [of x "text"] deduplicate_subset [of "scan_all text"] by auto
  qed
  then have "sorted (map span_start (deduplicate (scan_all text)))"
    by (simp add: sorted_map)
  then show ?thesis by (simp add: extract_all_def sort_key_id_if_sorted)
qed

lemma extract_all_spans:
  "c \<in> set (extract_all text) \<Longrightarrow> span_start c < span_end c \<and> span_end c \<le> length text"
  using scan_all_spans [of c "text"] deduplicate_subset [of "scan_all text"]
  by (auto simp: extract_all_eq)

lemma extract_all_disjoint: "disjoint_spans (extract_all text)"
  by (simp add: extract_all_eq deduplicate_disjoint)

text \<open>
  C5, as the claim states it, fails: the priority is not what decides between two
  overlapping matches. In the text below the URL pattern matches the whole text and the
  second DOI pattern matches its last nine characters; the DOI match lies inside the span
  of the URL, and the extractor returns the URL citation alone.
\<close>

theorem doi_inside_url_loses:
  "(DOI, (20, 29)) \<in> set (map (\<lambda>c. (citation_type c, position c))
                             (scan_all ''https://example.com/10.1234/x'')) \<and>
   map (\<lambda>c. (citation_type c, position c)) (extract_all ''https://example.com/10.1234/x'')
     = [(URL, (0, 29))]"
  by code_simp

text \<open>
  C5, amended. \<open>extract_all\<close> resolves overlapping spans by start position first and
  priority second. It is \<open>deduplicate\<close> of the matches found, which takes them in the
  order of their start (matches with the same start in scan order: author-year, numbered,
  DOI, URL) and keeps a list of citations: a match that starts at or after the end of the
  last citation kept is added; a match that starts before that end replaces the last
  citation kept only if it ends strictly later and has a strictly higher priority
  (DOI 4, author-year 3, numbered 2, URL 1), and is dropped otherwise, whatever its type.
  The citations returned are ordered by start and their spans do not overlap. For the text
  \<^verbatim>\<open>see https://doi.org/10.1234/x\<close> exactly one citation is returned, of type DOI.
\<close>

theorem extract_all_overlaps:
  "extract_all text = deduplicate (scan_all text) \<and>
   disjoint_spans (extract_all text) \<and>
   dedup_loop res (c # cs) =
     dedup_loop
       (if span_end (last res) \<le> span_start c then res @ [c]
        else if span_end (last res) < span_end c \<and> priority (last res) < priority c
        then butlast res @ [c]
        else res) cs \<and>
   map (\<lambda>t. priority (c\<lparr>citation_type := t\<rparr>)) [DOI, AUTHOR_YEAR, NUMBERED, URL] = [4, 3, 2, 1] \<and>
   map (\<lambda>c. (citation_type c, position c)) (extract_all ''see https://doi.org/10.1234/x'')
     = [(DOI, (4, 29))]"
proof -
  have ex: "map (\<lambda>c. (citation_type c, position c)) (extract_all ''see https://doi.org/10.1234/x'')
     = [(DOI, (4, 29))]"
    by code_simp
  have step: "dedup_loop res (c # cs) =
     dedup_loop
       (if span_end (last res) \<le> span_start c then res @ [c]
        else if span_end (last res) < span_end c \<and> priority (last res) < priority c
        then butlast res @ [c]
        else res) cs"
    by (simp add: Let_def)
  show ?thesis
    using ex step extract_all_eq [of "text"] extract_all_disjoint [of "text"]
    by (simp add: priority_def)
qed

theorem extract_all_overlaps_witness:
  "dedup_loop [url_citation] [doi_citation] = [url_citation] \<and>
   dedup_loop [doi_citation\<lparr>position := (20, 35)\<rparr>] [] = [doi_citation\<lparr>position := (20, 35)\<rparr>] \<and>
   dedup_loop [url_citation] [doi_citation\<lparr>position := (20, 35)\<rparr>]
     = [doi_citation\<lparr>position := (20, 35)\<rparr>] \<and>
   disjoint_spans (extract_all ''https://example.com/10.1234/x'')"
  using extract_all_overlaps [of "''https://example.com/10.1234/x''" "[url_citation]" doi_citation "[]"]
    extract_all_overlaps [of "''https://example.com/10.1234/x''" "[url_citation]"
      "doi_citation\<lparr>position := (20, 35)\<rparr>" "[]"]
  by (simp add: url_citation_def doi_citation_def priority_def)

section \<open>The rewritten text\<close>

lemma spans_from_le: "spans_from n p xs \<Longrightarrow> p \<le> n"
  by (induction xs arbitrary: p) (auto, fastforce)

lemma take_slice: "p \<le> s \<Longrightarrow> take p t @ slice t p s = take s t"
  by (metis append_take_drop_id min.absorb1 slice_def take_take)

lemma clean_fold:
  "spans_from (length original) p (map (\<lambda>v. position (original_citation v)) vs) \<Longrightarrow>
   \<forall>v \<in> set vs. alternative_source v = None \<Longrightarrow>
   foldr (\<lambda>v acc. clean_step acc v) vs original = take p original @ rewritten original p vs"
proof (induction vs arbitrary: p)
  case Nil
  then show ?case by simp
next
  case (Cons v vs)
  obtain s e where se: "position (original_citation v) = (s, e)"
    by (cases "position (original_citation v)")
  have ps: "p \<le> s" and le: "s \<le> e"
    and ch: "spans_from (length original) e (map (\<lambda>v. position (original_citation v)) vs)"
    using Cons.prems(1) se by auto
  have en: "e \<le> length original" using spans_from_le [OF ch] .
  define R where "R = foldr (\<lambda>v acc. clean_step acc v) vs original"
  have R: "R = take e original @ rewritten original e vs"
    unfolding R_def using Cons.IH [OF ch] Cons.prems(2) by simp
  have len: "length (take e original) = e" using en by simp
  have tk: "take s R = take s original" using le len by (simp add: R min_def)
  have dr: "drop e R = rewritten original e vs" using len by (simp add: R)
  have sl: "slice R s e = slice original s e" using len by (simp add: R slice_def)
  have alt: "\<not> truthy (alternative_source v)" using Cons.prems(2) by (simp add: truthy_def)
  have keep: "take s original @ slice original s e = take e original"
    using take_slice [OF le] .
  have step: "clean_step R v = take s original @ replacement original v @ rewritten original e vs"
    using tk dr sl alt keep R
    by (simp add: clean_step_def replacement_def se)
  have "foldr (\<lambda>v acc. clean_step acc v) (v # vs) original = clean_step R v"
    by (simp add: R_def)
  also have "\<dots> = take p original @ slice original p s @ replacement original v
                 @ rewritten original e vs"
    using step take_slice [OF ps, of original] by simp
  finally show ?case by (simp add: se)
qed

lemma insort_key_last:
  "\<forall>y \<in> set ys. f y < f x \<Longrightarrow> insort_key f x ys = ys @ [x]"
  by (induction ys) auto

lemma sorted_reverse_strict:
  "sorted_wrt (\<lambda>a b. f a < f b) xs \<Longrightarrow> sorted_reverse f xs = rev xs"
proof -
  assume a: "sorted_wrt (\<lambda>a b. f a < f b) xs"
  have "sort_key f (rev xs) = xs" using a
  proof (induction xs rule: rev_induct)
    case Nil
    then show ?case by simp
  next
    case (snoc x xs)
    then have "sort_key f (rev xs) = xs" and "\<forall>y \<in> set xs. f y < f x"
      by (auto simp: sorted_wrt_append)
    then show ?case by (simp add: insort_key_last)
  qed
  then show ?thesis by (simp add: sorted_reverse_def)
qed

lemma spans_from_disjoint:
  "disjoint_spans cs \<Longrightarrow> \<forall>c \<in> set cs. span_start c < span_end c \<and> span_end c \<le> n \<Longrightarrow>
   \<forall>c \<in> set cs. p \<le> span_start c \<Longrightarrow> p \<le> n \<Longrightarrow> spans_from n p (map position cs)"
proof (induction cs arbitrary: p)
  case Nil
  then show ?case by simp
next
  case (Cons c cs)
  obtain s e where se: "position c = (s, e)" by (cases "position c")
  have "spans_from n e (map position cs)"
    using Cons.IH [of e] Cons.prems se by (auto simp: disjoint_spans_def)
  then show ?case using Cons.prems se by auto
qed

lemma strict_starts:
  "disjoint_spans cs \<Longrightarrow> \<forall>c \<in> set cs. span_start c < span_end c \<Longrightarrow>
   sorted_wrt (\<lambda>a b. span_start a < span_start b) cs"
proof -
  assume a: "disjoint_spans cs" and b: "\<forall>c \<in> set cs. span_start c < span_end c"
  show ?thesis
  proof (rule sorted_wrt_mono_rel [OF _ a [unfolded disjoint_spans_def]])
    fix x y
    assume "x \<in> set cs" "span_end x \<le> span_start y"
    then show "span_start x < span_start y" using b by fastforce
  qed
qed

lemma generate_clean_text_rewritten:
  assumes "map original_citation vs = extract_all original"
    and "\<forall>v \<in> set vs. alternative_source v = None"
  shows "generate_clean_text original vs = rewritten original 0 vs"
proof -
  have sp: "\<forall>c \<in> set (extract_all original). span_start c < span_end c \<and> span_end c \<le> length original"
    using extract_all_spans by blast
  have st: "sorted_wrt (\<lambda>a b. span_start a < span_start b) (map original_citation vs)"
    using strict_starts [OF extract_all_disjoint [of original]] sp assms(1) by auto
  then have "sorted_wrt (\<lambda>a b. fst (position (original_citation a)) < fst (position (original_citation b))) vs"
    by (simp add: sorted_wrt_map)
  then have rv: "sorted_reverse (\<lambda>x. fst (position (original_citation x))) vs = rev vs"
    by (rule sorted_reverse_strict)
  have "spans_from (length original) 0 (map position (map original_citation vs))"
    using spans_from_disjoint [OF extract_all_disjoint [of original], of "length original" 0] sp assms(1)
    by auto
  then have ch: "spans_from (length original) 0 (map (\<lambda>v. position (original_citation v)) vs)"
    by (simp add: comp_def)
  show ?thesis
    using clean_fold [OF ch assms(2)]
    by (simp add: generate_clean_text_def rv foldr_conv_foldl)
qed

lemma slice_join:
  assumes "p \<le> s"
  shows "slice t p s @ drop s t = drop p t"
proof -
  have "drop p t = drop p (take s t @ drop s t)" by simp
  also have "\<dots> = drop p (take s t) @ drop (p - length (take s t)) (drop s t)"
    by (rule drop_append)
  also have "drop (p - length (take s t)) (drop s t) = drop s t"
    using assms by (cases "s \<le> length t") (simp_all add: min_def)
  finally show ?thesis by (simp add: slice_def)
qed

lemma rewritten_unchanged:
  "spans_from (length original) p (map (\<lambda>v. position (original_citation v)) vs) \<Longrightarrow>
   \<forall>v \<in> set vs. decision v = KEEP \<or> decision v = MODIFY \<Longrightarrow>
   rewritten original p vs = drop p original"
proof (induction vs arbitrary: p)
  case Nil
  then show ?case by simp
next
  case (Cons v vs)
  obtain s e where se: "position (original_citation v) = (s, e)"
    by (cases "position (original_citation v)")
  have ps: "p \<le> s" and le: "s \<le> e"
    and ch: "spans_from (length original) e (map (\<lambda>v. position (original_citation v)) vs)"
    using Cons.prems(1) se by auto
  have r: "replacement original v = slice original s e"
    using Cons.prems(2) by (auto simp: replacement_def se)
  have "rewritten original p (v # vs) = slice original p s @ slice original s e @ drop e original"
    using Cons.IH [OF ch] Cons.prems(2) r by (simp add: se)
  also have "\<dots> = drop p original"
    using slice_join [OF le, of original] slice_join [OF ps, of original] by simp
  finally show ?case .
qed

lemma verify_text_clean:
  "clean_text (fst (verify_text eng text w)) =
     generate_clean_text text (verifications (fst (verify_text eng text w)))"
proof (cases "extract_all text = []")
  case True
  then show ?thesis
    by (simp add: verify_text_def Let_def generate_clean_text_def sorted_reverse_def)
next
  case False
  obtain vs w1 where vs: "verify_citations eng (extract_all text) w = (vs, w1)"
    by (cases "verify_citations eng (extract_all text) w")
  show ?thesis
    using False vs count_loop_sum [of "\<lparr>total_citations = int (length (extract_all text)),
        verified_count = 0, modified_count = 0, deleted_count = 0, flagged_count = 0,
        verifications = vs, clean_text = []\<rparr>" vs]
    by (simp add: verify_text_report [OF False vs])
qed

lemma verify_text_sources:
  "(\<forall>v \<in> set (verifications (fst (verify_text eng text w))). alternative_source v = None) \<and>
   map original_citation (verifications (fst (verify_text eng text w))) = extract_all text"
proof (cases "extract_all text = []")
  case True
  then show ?thesis by (simp add: verify_text_verifications)
next
  case False
  obtain vs w1 where vs: "verify_citations eng (extract_all text) w = (vs, w1)"
    by (cases "verify_citations eng (extract_all text) w")
  have a: "\<forall>v \<in> set vs. alternative_source v = None"
    using verify_citations_decided [OF vs] by blast
  have b: "map original_citation vs = extract_all text"
    using verify_citations_original [of eng "extract_all text" w] vs by simp
  show ?thesis using False vs a b by (simp add: verify_text_verifications)
qed

text \<open>
  C10. \<open>verify_text\<close> never sets an alternative source: it is \<open>None\<close> in every
  verification of the report. The clean text of the report is the original text in which
  the span of each citation decided DELETE is replaced by the marker for a removed
  citation and the span of each citation decided FLAG is wrapped in the marker for
  review; the span of each citation decided KEEP or MODIFY, and the text outside the
  spans of the citations, is as in the original text. In particular, when every decision
  is KEEP or MODIFY the clean text is the original text.
\<close>

theorem clean_text_frame:
  "(\<forall>v \<in> set (verifications (fst (verify_text eng text w))). alternative_source v = None) \<and>
   clean_text (fst (verify_text eng text w))
     = rewritten text 0 (verifications (fst (verify_text eng text w))) \<and>
   ((\<forall>v \<in> set (verifications (fst (verify_text eng text w))).
        decision v = KEEP \<or> decision v = MODIFY) \<longrightarrow>
      clean_text (fst (verify_text eng text w)) = text)"
proof -
  define vs where "vs = verifications (fst (verify_text eng text w))"
  have src: "\<forall>v \<in> set vs. alternative_source v = None"
    and oc: "map original_citation vs = extract_all text"
    using verify_text_sources [of eng "text" w] by (simp_all add: vs_def)
  have cl: "clean_text (fst (verify_text eng text w)) = rewritten text 0 vs"
    using generate_clean_text_rewritten [OF oc src] by (simp add: verify_text_clean vs_def)
  have sp: "\<forall>c \<in> set (extract_all text). span_start c < span_end c \<and> span_end c \<le> length text"
    using extract_all_spans by blast
  have "spans_from (length text) 0 (map position (map original_citation vs))"
    using spans_from_disjoint [OF extract_all_disjoint [of "text"], of "length text" 0] sp oc
    by auto
  then have ch: "spans_from (length text) 0 (map (\<lambda>v. position (original_citation v)) vs)"
    by (simp add: comp_def)
  have "(\<forall>v \<in> set vs. decision v = KEEP \<or> decision v = MODIFY) \<longrightarrow> rewritten text 0 vs = text"
    using rewritten_unchanged [OF ch] by simp
  then show ?thesis using src cl by (simp add: vs_def)
qed

theorem clean_text_frame_witness:
  "clean_text (fst (verify_text failing_moat ''see https://doi.org/10.1234/x and [7].'' 0))
     = ''see https://doi.org/10.1234/x and [CITATION REMOVED].'' \<and>
   map decision (verifications (fst (verify_text partial_moat ''As (Smith, 2024) and [7] say.'' 0)))
     = [MODIFY, MODIFY] \<and>
   clean_text (fst (verify_text partial_moat ''As (Smith, 2024) and [7] say.'' 0))
     = ''As (Smith, 2024) and [7] say.''"
proof -
  have a: "clean_text (fst (verify_text failing_moat ''see https://doi.org/10.1234/x and [7].'' 0))
     = ''see https://doi.org/10.1234/x and [CITATION REMOVED].''"
    by code_simp
  have b: "map decision (verifications (fst (verify_text partial_moat ''As (Smith, 2024) and [7] say.'' 0)))
     = [MODIFY, MODIFY]"
    by code_simp
  show ?thesis
    using a b clean_text_frame [of partial_moat "''As (Smith, 2024) and [7] say.''" 0]
    by auto
qed

section \<open>The round loop of the debate\<close>

lemma round_exit_state:
  "round_exit eng s x = Inr (brk, s1) \<Longrightarrow>
   st_round_num s1 = st_round_num s \<and> st_rounds s1 = st_rounds s \<and>
   st_recent_scores s1 = st_recent_scores s \<and> st_position s1 = st_position s \<and>
   (\<exists>b. check_convergence (convergence_rounds eng) (st_recent_scores s) = Inr b \<and>
        (st_status s = IN_PROGRESS \<longrightarrow>
           (st_status s1 = CONVERGED \<longleftrightarrow> b) \<and> (\<not> brk \<longrightarrow> st_status s1 = IN_PROGRESS)))"
  by (auto simp: round_exit_def split: sum.splits bool.splits if_splits)

lemma loop_body_round_num:
  "loop_body eng context s w = (Inr (brk, s1), w1) \<Longrightarrow> st_round_num s1 = st_round_num s + 1"
  by (auto simp: loop_body_def Let_def split: prod.splits sum.splits dest!: round_exit_state)








section \<open>The re-evaluation loop\<close>

lemma revote_loop_cap:
  "revote_loop eng n pos vr w = (Inr (re, pos', vr'), w') \<Longrightarrow> n \<le> 3 \<Longrightarrow>
   n \<le> re \<and> re \<le> 3 \<and> (passed vr' \<or> re = 3)"
proof (induction eng n pos vr w rule: revote_loop.induct)
  case (1 eng re_evals current_position vr w)
  show ?case
  proof (cases "\<not> passed vr \<and> re_evals < 3")
    case False
    then show ?thesis using "1.prems" by (auto simp: revote_loop.simps [of eng re_evals current_position vr w])
  next
    case True
    then obtain revision w1 where
      rq: "request_revision eng current_position vr w = (Inr revision, w1)"
      and rec: "revote_loop eng (re_evals + 1) revision (vote (voting_engine eng) revision) w1
                 = (Inr (re, pos', vr'), w')"
      using "1.prems"(1)
      by (auto simp: revote_loop.simps [of eng re_evals current_position vr w]
               split: prod.splits sum.splits)
    from "1.IH" [OF True rq [symmetric] refl rec] True
    show ?thesis by simp
  qed
qed

text \<open>
  C3. The re-evaluation loop does not read \<^verbatim>\<open>max_retries\<close>: with
  \<^verbatim>\<open>max_retries = 1\<close> and a position whose every revision fails the vote,
  \<^verbatim>\<open>run_debate\<close> returns normally with \<^verbatim>\<open>re_evaluations = 3\<close> and a failed vote.
\<close>

theorem retry_loop_ignores_max_retries:
  "max_retries (voting_engine (quiet_engine 1 1)) = 1 \<and>
   (\<exists>r w'. run_debate (quiet_engine 1 1) ''Is X true?'' None 0 = (Inr r, w') \<and>
      re_evaluations r = 3 \<and> voting_result r \<noteq> None \<and>
      \<not> passed (the (voting_result r)))"
proof -
  have ev: "(case run_debate (quiet_engine 1 1) ''Is X true?'' None 0 of
               (Inr r, w') \<Rightarrow> Some (re_evaluations r, map_option passed (voting_result r))
             | (Inl e, w') \<Rightarrow> None) = Some (3, Some False)"
    by code_simp
  then obtain r w' where
    run: "run_debate (quiet_engine 1 1) ''Is X true?'' None 0 = (Inr r, w')"
    and re: "re_evaluations r = 3" "map_option passed (voting_result r) = Some False"
    by (auto split: prod.splits sum.splits)
  have "max_retries (voting_engine (quiet_engine 1 1)) = 1" by (simp add: quiet_engine_def)
  moreover have "voting_result r \<noteq> None \<and> \<not> passed (the (voting_result r))"
    using re(2) by auto
  ultimately show ?thesis using run re(1) by (intro conjI exI [of _ r] exI [of _ w']) simp_all
qed

end
